theory Spec2Isabelle
  imports Complex_Main "HOL-Library.Multiset"
begin

section \<open>Data model of the activation-diffusion component\<close>

text \<open>
  The embedding follows \<^verbatim>\<open>src/components/EngramNetwork3D.tsx\<close>, lines 273 to 378: the
  component \<^verbatim>\<open>EngramNetwork3D\<close> with its two pieces of React state (\<^verbatim>\<open>activations\<close>,
  \<^verbatim>\<open>pulseWaves\<close>), the reference \<^verbatim>\<open>clockRef\<close> and the callback \<^verbatim>\<open>handleActivate\<close>. The
  graph, which the component holds in the constants \<^verbatim>\<open>nodes\<close> and \<^verbatim>\<open>edges\<close>, is a parameter
  of the model, as it is a dependency of \<^verbatim>\<open>handleActivate\<close>.

  JavaScript numbers are modelled as exact rationals (every level the code produces is a
  product of the constants 1, 0.6 and 0.95); the rounding of IEEE doubles is not modelled.
  A JavaScript \<^verbatim>\<open>Map\<close> is an association list with distinct keys in insertion order.
  The updater functions passed to \<^verbatim>\<open>setActivations\<close> and \<^verbatim>\<open>setPulseWaves\<close> are applied at once
  and in the order in which they are issued. The fields \<^verbatim>\<open>id\<close> and \<^verbatim>\<open>type\<close> of a node are
  called \<open>node_id\<close> and \<open>node_type\<close>.
\<close>

datatype NodeType = query | concept | raw

record EngramNode =
  node_id :: int
  position :: "rat \<times> rat \<times> rat"
  label :: string
  node_type :: NodeType

record EngramEdge =
  source :: int
  target :: int

record pulse =
  origin :: "rat \<times> rat \<times> rat"
  startTime :: rat

record graph =
  nodes :: "EngramNode list"
  edges :: "EngramEdge list"

text \<open>
  Deferred work. The three kinds of callback the component hands to the timer functions:
  the body of the \<^verbatim>\<open>setTimeout\<close> inside \<^verbatim>\<open>spreadActivation\<close> (closed over \<^verbatim>\<open>sourceId\<close>,
  \<^verbatim>\<open>strength\<close> and \<^verbatim>\<open>depth\<close>), the body of the \<^verbatim>\<open>setInterval\<close> (closed over its own handle
  \<^verbatim>\<open>decayInterval\<close>), and the pulse clean-up.
\<close>

datatype callback =
    SpreadCb int rat nat
  | DecayCb nat
  | ClearCb

record timer =
  handle :: nat
  fire_at :: int
  period :: "int option"
  callback :: callback

record state =
  activations :: "(int \<times> rat) list"
  pulseWaves :: "pulse list"
  clockRef :: rat
  now :: int
  timers :: "timer list"
  next_handle :: nat

definition init_state :: state where
  "init_state = \<lparr>activations = [], pulseWaves = [], clockRef = 0, now = 0,
                  timers = [], next_handle = 0\<rparr>"

section \<open>The activation ledger\<close>

text \<open>\<^verbatim>\<open>Map.prototype.set\<close>: an existing key keeps its place, a new key goes to the end.\<close>

fun map_set :: "('k \<times> 'v) list \<Rightarrow> 'k \<Rightarrow> 'v \<Rightarrow> ('k \<times> 'v) list" where
  "map_set [] k v = [(k, v)]"
| "map_set ((k', v') # m) k v =
     (if k' = k then (k, v) # m else (k', v') # map_set m k v)"

text \<open>\<^verbatim>\<open>newMap.get(neighborId) || 0\<close>: a missing entry, and the falsy level 0, read as 0.\<close>

definition get_or_zero :: "(int \<times> rat) list \<Rightarrow> int \<Rightarrow> rat" where
  "get_or_zero m k = (case map_of m k of None \<Rightarrow> 0 | Some v \<Rightarrow> if v = 0 then 0 else v)"

text \<open>The updater of lines 325 to 332, which the specification calls \<^verbatim>\<open>setIfHigher\<close>.\<close>

definition setIfHigher :: "(int \<times> rat) list \<Rightarrow> int \<Rightarrow> rat \<Rightarrow> (int \<times> rat) list" where
  "setIfHigher prev neighborId transferStrength =
     (let currentActivation = get_or_zero prev neighborId
      in if transferStrength > currentActivation
         then map_set prev neighborId transferStrength
         else prev)"

text \<open>
  The updater of lines 349 to 366 without its \<^verbatim>\<open>clearInterval\<close>: one pass of
  \<^verbatim>\<open>prev.forEach\<close> that builds \<^verbatim>\<open>newMap\<close> and the flag \<^verbatim>\<open>hasActiveNodes\<close>.
\<close>

definition decay_entry ::
  "(int \<times> rat) list \<times> bool \<Rightarrow> int \<times> rat \<Rightarrow> (int \<times> rat) list \<times> bool" where
  "decay_entry acc kv =
     (let newValue = snd kv * 0.95
      in if newValue > 0.05 then (map_set (fst acc) (fst kv) newValue, True) else acc)"

definition decayAll :: "(int \<times> rat) list \<Rightarrow> (int \<times> rat) list \<times> bool" where
  "decayAll prev = foldl decay_entry ([], False) prev"

section \<open>Timers\<close>

text \<open>
  The host's timer functions on a virtual clock \<open>now\<close>, in milliseconds: a timer fires
  exactly at its fire time. Pending timers are kept in the order of their registration,
  each with the handle that \<^verbatim>\<open>setTimeout\<close> or \<^verbatim>\<open>setInterval\<close> returned for it.
\<close>

definition setTimeout :: "callback \<Rightarrow> int \<Rightarrow> state \<Rightarrow> state" where
  "setTimeout cb delay s =
     s\<lparr>timers := timers s @
          [\<lparr>handle = next_handle s, fire_at = now s + delay, period = None, callback = cb\<rparr>],
       next_handle := Suc (next_handle s)\<rparr>"

definition setInterval :: "(nat \<Rightarrow> callback) \<Rightarrow> int \<Rightarrow> state \<Rightarrow> state" where
  "setInterval cb delay s =
     s\<lparr>timers := timers s @
          [\<lparr>handle = next_handle s, fire_at = now s + delay, period = Some delay,
            callback = cb (next_handle s)\<rparr>],
       next_handle := Suc (next_handle s)\<rparr>"

definition clearInterval :: "nat \<Rightarrow> state \<Rightarrow> state" where
  "clearInterval h s = s\<lparr>timers := filter (\<lambda>t. handle t \<noteq> h) (timers s)\<rparr>"

section \<open>The diffusion engine\<close>

definition emit_pulse :: "EngramNode \<Rightarrow> state \<Rightarrow> state" where
  "emit_pulse node s =
     s\<lparr>pulseWaves := pulseWaves s @ [\<lparr>origin = position node, startTime = clockRef s\<rparr>]\<rparr>"

text \<open>\<^verbatim>\<open>spreadActivation\<close>, lines 315 to 343: the guard, then the \<^verbatim>\<open>setTimeout\<close>.\<close>

definition spreadActivation :: "int \<Rightarrow> rat \<Rightarrow> nat \<Rightarrow> state \<Rightarrow> state" where
  "spreadActivation sourceId strength depth s =
     (if depth > 3 \<or> strength < 0.1 then s
      else setTimeout (SpreadCb sourceId strength depth) (400 * int depth) s)"

text \<open>The body of \<^verbatim>\<open>connectedEdges.forEach\<close>, lines 321 to 341, for one edge.\<close>

definition neighborId :: "int \<Rightarrow> EngramEdge \<Rightarrow> int" where
  "neighborId sourceId edge = (if source edge = sourceId then target edge else source edge)"

definition spread_edge :: "graph \<Rightarrow> int \<Rightarrow> rat \<Rightarrow> nat \<Rightarrow> state \<Rightarrow> EngramEdge \<Rightarrow> state" where
  "spread_edge g sourceId strength depth s edge =
     (let transferStrength = strength * 0.6;
          s1 = s\<lparr>activations :=
                  setIfHigher (activations s) (neighborId sourceId edge) transferStrength\<rparr>;
          s2 = (case find (\<lambda>n. node_id n = neighborId sourceId edge) (nodes g) of
                  Some neighborNode \<Rightarrow>
                    if transferStrength > 0.2 then emit_pulse neighborNode s1 else s1
                | None \<Rightarrow> s1)
      in spreadActivation (neighborId sourceId edge) transferStrength (depth + 1) s2)"

text \<open>The callback of the \<^verbatim>\<open>setTimeout\<close> in \<^verbatim>\<open>spreadActivation\<close>, lines 318 to 342.\<close>

definition connectedEdges :: "graph \<Rightarrow> int \<Rightarrow> EngramEdge list" where
  "connectedEdges g sourceId =
     filter (\<lambda>e. source e = sourceId \<or> target e = sourceId) (edges g)"

definition spread_timeout :: "graph \<Rightarrow> int \<Rightarrow> rat \<Rightarrow> nat \<Rightarrow> state \<Rightarrow> state" where
  "spread_timeout g sourceId strength depth s =
     foldl (spread_edge g sourceId strength depth) s (connectedEdges g sourceId)"

text \<open>The callback of the \<^verbatim>\<open>setInterval\<close>, lines 348 to 367.\<close>

definition decay_interval :: "nat \<Rightarrow> state \<Rightarrow> state" where
  "decay_interval decayInterval s =
     (let r = decayAll (activations s);
          s1 = (if \<not> snd r then clearInterval decayInterval s else s)
      in s1\<lparr>activations := fst r\<rparr>)"

text \<open>The callback of the last \<^verbatim>\<open>setTimeout\<close>, lines 370 to 372.\<close>

definition clear_pulses :: "state \<Rightarrow> state" where
  "clear_pulses s = s\<lparr>pulseWaves := []\<rparr>"

text \<open>\<^verbatim>\<open>handleActivate\<close>, lines 300 to 373.\<close>

definition handleActivate :: "graph \<Rightarrow> int \<Rightarrow> state \<Rightarrow> state" where
  "handleActivate g i s =
     (case find (\<lambda>n. node_id n = i) (nodes g) of
        None \<Rightarrow> s
      | Some node \<Rightarrow>
          (let s1 = emit_pulse node s;
               s2 = s1\<lparr>activations := map_set (activations s1) i 1\<rparr>;
               s3 = spreadActivation i 1 1 s2;
               s4 = setInterval DecayCb 100 s3
           in setTimeout ClearCb 3000 s4))"

text \<open>\<^verbatim>\<open>updateClock\<close>, lines 376 to 378.\<close>

definition updateClock :: "rat \<Rightarrow> state \<Rightarrow> state" where
  "updateClock time s = s\<lparr>clockRef := time\<rparr>"

section \<open>The event loop\<close>

text \<open>
  The timers that may fire next are the pending ones with the least fire time. When several
  are due at the same time, nothing in the source fixes which of them fires first, so no
  order is built in: \<open>due\<close> lists all of them. A repeating timer is registered again, one
  period later, each time it fires.
\<close>

definition due :: "state \<Rightarrow> timer list" where
  "due s = filter (\<lambda>t. list_all (\<lambda>u. fire_at t \<le> fire_at u) (timers s)) (timers s)"

definition run_callback :: "graph \<Rightarrow> callback \<Rightarrow> state \<Rightarrow> state" where
  "run_callback g cb s =
     (case cb of
        SpreadCb sourceId strength depth \<Rightarrow> spread_timeout g sourceId strength depth s
      | DecayCb h \<Rightarrow> decay_interval h s
      | ClearCb \<Rightarrow> clear_pulses s)"

definition requeue :: "timer \<Rightarrow> timer list \<Rightarrow> timer list" where
  "requeue t ts =
     (let rest = filter (\<lambda>u. handle u \<noteq> handle t) ts
      in case period t of
           None \<Rightarrow> rest
         | Some p \<Rightarrow> rest @ [t\<lparr>fire_at := fire_at t + p\<rparr>])"

definition fire :: "graph \<Rightarrow> timer \<Rightarrow> state \<Rightarrow> state" where
  "fire g t s =
     run_callback g (callback t) (s\<lparr>now := fire_at t, timers := requeue t (timers s)\<rparr>)"

text \<open>
  Executions. \<open>fire_seq\<close> fires the timers with the given handles, one after the other,
  and has no result when one of them is not due at its turn. \<open>firings g n s\<close> lists the
  callbacks fired among the first \<open>n\<close> after \<open>s\<close>, each with the state before and the
  state after it, and \<open>runs g n s\<close> the states after \<open>n\<close> callbacks, for every order in
  which timers due at the same time can fire: \<open>explore\<close> and \<open>after\<close> take the timers due
  in a state one by one and go on from the state each of them leaves.
\<close>

fun fire_seq :: "graph \<Rightarrow> nat list \<Rightarrow> state \<Rightarrow> state option" where
  "fire_seq g [] s = Some s"
| "fire_seq g (h # hs) s =
     (case find (\<lambda>t. handle t = h) (due s) of
        None \<Rightarrow> None
      | Some t \<Rightarrow> fire_seq g hs (fire g t s))"

fun explore :: "graph \<Rightarrow> nat \<Rightarrow> state \<Rightarrow> timer list \<Rightarrow> (state \<times> timer \<times> state) list" where
  "explore g 0 s ts = []"
| "explore g (Suc n) s [] = []"
| "explore g (Suc n) s (t # ts) =
     (let s' = fire g t s in (s, t, s') # explore g n s' (due s')) @ explore g (Suc n) s ts"

definition firings :: "graph \<Rightarrow> nat \<Rightarrow> state \<Rightarrow> (state \<times> timer \<times> state) list" where
  "firings g n s = explore g n s (due s)"

fun after :: "graph \<Rightarrow> nat \<Rightarrow> state \<Rightarrow> timer list \<Rightarrow> state list" where
  "after g 0 s ts = [s]"
| "after g (Suc n) s [] = []"
| "after g (Suc n) s (t # ts) =
     (let s' = fire g t s in after g n s' (due s')) @ after g (Suc n) s ts"

definition runs :: "graph \<Rightarrow> nat \<Rightarrow> state \<Rightarrow> state list" where
  "runs g n s = after g n s (due s)"

text \<open>The states the component can be in: user clicks, animation frames and timers.\<close>

inductive reachable :: "graph \<Rightarrow> state \<Rightarrow> bool" for g :: graph where
  r_init: "reachable g init_state"
| r_activate: "reachable g s \<Longrightarrow> reachable g (handleActivate g i s)"
| r_clock: "reachable g s \<Longrightarrow> reachable g (updateClock c s)"
| r_fire: "reachable g s \<Longrightarrow> t \<in> set (due s) \<Longrightarrow> reachable g (fire g t s)"
| r_wait: "reachable g s \<Longrightarrow> now s \<le> n \<Longrightarrow> \<forall>t \<in> set (timers s). n \<le> fire_at t
           \<Longrightarrow> reachable g (s\<lparr>now := n\<rparr>)"

section \<open>The reference graph\<close>

text \<open>The constants \<^verbatim>\<open>nodes\<close> and \<^verbatim>\<open>edges\<close> of lines 275 to 292.\<close>

definition ref_nodes :: "EngramNode list" where
  "ref_nodes =
     [\<lparr>node_id = 0, position = (0, 0, 0), label = ''Query: \"Orders Slow\"'', node_type = query\<rparr>,
      \<lparr>node_id = 1, position = (-1.5, 1, 0.5), label = ''Latency'', node_type = concept\<rparr>,
      \<lparr>node_id = 2, position = (1.5, 1, -0.5), label = ''DB Index'', node_type = concept\<rparr>,
      \<lparr>node_id = 3, position = (-2, -0.5, 1), label = ''Timeout Error'', node_type = raw\<rparr>,
      \<lparr>node_id = 4, position = (2, -0.5, -1), label = ''Index Optimization'', node_type = raw\<rparr>,
      \<lparr>node_id = 5, position = (0, -1.5, 0), label = ''Optimization Plan'', node_type = concept\<rparr>]"

definition ref_edges :: "EngramEdge list" where
  "ref_edges =
     [\<lparr>source = 0, target = 1\<rparr>, \<lparr>source = 0, target = 2\<rparr>, \<lparr>source = 1, target = 3\<rparr>,
      \<lparr>source = 2, target = 4\<rparr>, \<lparr>source = 4, target = 5\<rparr>, \<lparr>source = 1, target = 2\<rparr>]"

definition ref_graph :: graph where
  "ref_graph = \<lparr>nodes = ref_nodes, edges = ref_edges\<rparr>"

section \<open>Property reads that can fail\<close>

text \<open>
  Reading \<^verbatim>\<open>.position\<close> of the result of \<^verbatim>\<open>nodes.find\<close> throws a \<^verbatim>\<open>TypeError\<close> when no node was
  found. The two places that read it, lines 305 and 337, are written out here with that
  failure as a value: \<^verbatim>\<open>handleActivate\<close> after the guard of line 302, and the body of
  \<^verbatim>\<open>connectedEdges.forEach\<close> under the guard of line 336, where an exception ends the loop.
  They are shown below never to fail, and to return what the definitions above return.
\<close>

datatype error = TypeError

definition position_of :: "EngramNode option \<Rightarrow> error + rat \<times> rat \<times> rat" where
  "position_of node = (case node of None \<Rightarrow> Inl TypeError | Some n \<Rightarrow> Inr (position n))"

definition spread_edge_checked ::
  "graph \<Rightarrow> int \<Rightarrow> rat \<Rightarrow> nat \<Rightarrow> state \<Rightarrow> EngramEdge \<Rightarrow> error + state" where
  "spread_edge_checked g sourceId strength depth s edge =
     (let transferStrength = strength * 0.6;
          s1 = s\<lparr>activations :=
                  setIfHigher (activations s) (neighborId sourceId edge) transferStrength\<rparr>;
          neighborNode = find (\<lambda>n. node_id n = neighborId sourceId edge) (nodes g)
      in case (if neighborNode \<noteq> None \<and> transferStrength > 0.2
               then (case position_of neighborNode of
                       Inl err \<Rightarrow> Inl err
                     | Inr p \<Rightarrow> Inr (s1\<lparr>pulseWaves := pulseWaves s1 @
                                        [\<lparr>origin = p, startTime = clockRef s1\<rparr>]\<rparr>))
               else Inr s1) of
           Inl err \<Rightarrow> Inl err
         | Inr s2 \<Rightarrow>
             Inr (spreadActivation (neighborId sourceId edge) transferStrength (depth + 1) s2))"

fun foldl_checked :: "('s \<Rightarrow> 'a \<Rightarrow> error + 's) \<Rightarrow> 's \<Rightarrow> 'a list \<Rightarrow> error + 's" where
  "foldl_checked f s [] = Inr s"
| "foldl_checked f s (x # xs) =
     (case f s x of Inl err \<Rightarrow> Inl err | Inr s' \<Rightarrow> foldl_checked f s' xs)"

definition spread_timeout_checked :: "graph \<Rightarrow> int \<Rightarrow> rat \<Rightarrow> nat \<Rightarrow> state \<Rightarrow> error + state" where
  "spread_timeout_checked g sourceId strength depth s =
     foldl_checked (spread_edge_checked g sourceId strength depth) s (connectedEdges g sourceId)"

definition handleActivate_checked :: "graph \<Rightarrow> int \<Rightarrow> state \<Rightarrow> error + state" where
  "handleActivate_checked g i s =
     (let node = find (\<lambda>n. node_id n = i) (nodes g)
      in if node = None then Inr s
         else (case position_of node of
                 Inl err \<Rightarrow> Inl err
               | Inr p \<Rightarrow>
                   (let s1 = s\<lparr>pulseWaves := pulseWaves s @
                                 [\<lparr>origin = p, startTime = clockRef s\<rparr>]\<rparr>;
                        s2 = s1\<lparr>activations := map_set (activations s1) i 1\<rparr>;
                        s3 = spreadActivation i 1 1 s2;
                        s4 = setInterval DecayCb 100 s3
                    in Inr (setTimeout ClearCb 3000 s4))))"

section \<open>Inputs, invariants and observers used in the statements\<close>

text \<open>
  A graph description whose only edge names a node, 7, that is not in the node list.
\<close>

definition dangling_graph :: graph where
  "dangling_graph =
     \<lparr>nodes = [\<lparr>node_id = 0, position = (0, 0, 0), label = ''Query'', node_type = query\<rparr>],
      edges = [\<lparr>source = 0, target = 7\<rparr>]\<rparr>"

text \<open>
  What every state the component reaches satisfies: the ledger has distinct keys and
  positive levels; a pending propagation callback has a depth between 1 and 3 and carries
  the strength \<open>0.6 ^ (depth - 1)\<close>; a decay callback is a repeating timer of period 100
  that holds its own handle; the other timers fire once.
\<close>

definition ledger_ok :: "(int \<times> rat) list \<Rightarrow> bool" where
  "ledger_ok m = (distinct (map fst m) \<and> (\<forall>kv \<in> set m. 0 < snd kv))"

definition timer_ok :: "timer \<Rightarrow> bool" where
  "timer_ok t =
     (case callback t of
        SpreadCb sourceId strength depth \<Rightarrow>
          period t = None \<and> 1 \<le> depth \<and> depth \<le> 3 \<and> strength = 0.6 ^ (depth - 1)
      | DecayCb h \<Rightarrow> h = handle t \<and> period t = Some 100
      | ClearCb \<Rightarrow> period t = None)"

definition state_ok :: "state \<Rightarrow> bool" where
  "state_ok s = (ledger_ok (activations s) \<and> (\<forall>t \<in> set (timers s). timer_ok t))"

text \<open>
  \<open>decay_kept\<close> is the decay sweep written as a filter and a map, \<open>decay_loops\<close> lists
  the pending \<^verbatim>\<open>setInterval\<close> timers of a state, \<open>deliver\<close> is \<open>setIfHigher\<close> on a pair,
  and \<open>merge_max\<close> is the same update on the ledger read as a mapping.
\<close>

definition decay_kept :: "(int \<times> rat) list \<Rightarrow> (int \<times> rat) list" where
  "decay_kept m = map (\<lambda>kv. (fst kv, snd kv * 0.95)) (filter (\<lambda>kv. snd kv * 0.95 > 0.05) m)"

definition decay_loops :: "state \<Rightarrow> timer list" where
  "decay_loops s = filter (\<lambda>t. case callback t of DecayCb h \<Rightarrow> True | _ \<Rightarrow> False) (timers s)"

definition deliver :: "(int \<times> rat) list \<Rightarrow> int \<times> rat \<Rightarrow> (int \<times> rat) list" where
  "deliver m d = setIfHigher m (fst d) (snd d)"

definition merge_max :: "int \<times> rat \<Rightarrow> (int \<rightharpoonup> rat) \<Rightarrow> (int \<rightharpoonup> rat)" where
  "merge_max d \<mu> =
     (if snd d > (case \<mu> (fst d) of None \<Rightarrow> 0 | Some v \<Rightarrow> v) then \<mu>(fst d \<mapsto> snd d) else \<mu>)"

text \<open>
  The pulses one edge adds in a delivery from \<open>sourceId\<close>, lines 335 to 338: one when the
  other endpoint is a node and the transferred strength exceeds 0.2, none otherwise.
\<close>

definition edge_pulses :: "graph \<Rightarrow> int \<Rightarrow> rat \<Rightarrow> rat \<Rightarrow> EngramEdge \<Rightarrow> pulse list" where
  "edge_pulses g sourceId strength time e =
     (case find (\<lambda>n. node_id n = neighborId sourceId e) (nodes g) of
        None \<Rightarrow> []
      | Some neighborNode \<Rightarrow>
          if strength * 0.6 > 0.2 then [\<lparr>origin = position neighborNode, startTime = time\<rparr>]
          else [])"

text \<open>
  States of the reference scenario, a click on node 0 of the reference graph at time 0:
  after the three decay ticks up to time 300; after both callbacks due at time 400, with
  the propagation before the decay tick (\<open>a\<close>) and after it (\<open>b\<close>); and after the seven
  further decay ticks up to time 1100, in either case.
\<close>

definition at_300 :: state where
  "at_300 =
     \<lparr>activations = [(0, 0.95 ^ 3)],
      pulseWaves = [\<lparr>origin = (0, 0, 0), startTime = 0\<rparr>], clockRef = 0, now = 300,
      timers = [\<lparr>handle = 0, fire_at = 400, period = None, callback = SpreadCb 0 1 1\<rparr>,
                \<lparr>handle = 2, fire_at = 3000, period = None, callback = ClearCb\<rparr>,
                \<lparr>handle = 1, fire_at = 400, period = Some 100, callback = DecayCb 1\<rparr>],
      next_handle = 3\<rparr>"

definition at_400a :: state where
  "at_400a =
     \<lparr>activations = [(0, 0.95 ^ 4), (1, 0.6 * 0.95), (2, 0.6 * 0.95)],
      pulseWaves = [\<lparr>origin = (0, 0, 0), startTime = 0\<rparr>,
                    \<lparr>origin = (-1.5, 1, 0.5), startTime = 0\<rparr>,
                    \<lparr>origin = (1.5, 1, -0.5), startTime = 0\<rparr>],
      clockRef = 0, now = 400,
      timers = [\<lparr>handle = 2, fire_at = 3000, period = None, callback = ClearCb\<rparr>,
                \<lparr>handle = 3, fire_at = 1200, period = None, callback = SpreadCb 1 0.6 2\<rparr>,
                \<lparr>handle = 4, fire_at = 1200, period = None, callback = SpreadCb 2 0.6 2\<rparr>,
                \<lparr>handle = 1, fire_at = 500, period = Some 100, callback = DecayCb 1\<rparr>],
      next_handle = 5\<rparr>"

definition at_400b :: state where
  "at_400b =
     \<lparr>activations = [(0, 0.95 ^ 4), (1, 0.6), (2, 0.6)],
      pulseWaves = [\<lparr>origin = (0, 0, 0), startTime = 0\<rparr>,
                    \<lparr>origin = (-1.5, 1, 0.5), startTime = 0\<rparr>,
                    \<lparr>origin = (1.5, 1, -0.5), startTime = 0\<rparr>],
      clockRef = 0, now = 400,
      timers = [\<lparr>handle = 2, fire_at = 3000, period = None, callback = ClearCb\<rparr>,
                \<lparr>handle = 1, fire_at = 500, period = Some 100, callback = DecayCb 1\<rparr>,
                \<lparr>handle = 3, fire_at = 1200, period = None, callback = SpreadCb 1 0.6 2\<rparr>,
                \<lparr>handle = 4, fire_at = 1200, period = None, callback = SpreadCb 2 0.6 2\<rparr>],
      next_handle = 5\<rparr>"

definition at_1100a :: state where
  "at_1100a =
     \<lparr>activations = [(0, 0.95 ^ 11), (1, 0.6 * 0.95 ^ 8), (2, 0.6 * 0.95 ^ 8)],
      pulseWaves = [\<lparr>origin = (0, 0, 0), startTime = 0\<rparr>,
                    \<lparr>origin = (-1.5, 1, 0.5), startTime = 0\<rparr>,
                    \<lparr>origin = (1.5, 1, -0.5), startTime = 0\<rparr>],
      clockRef = 0, now = 1100,
      timers = [\<lparr>handle = 2, fire_at = 3000, period = None, callback = ClearCb\<rparr>,
                \<lparr>handle = 3, fire_at = 1200, period = None, callback = SpreadCb 1 0.6 2\<rparr>,
                \<lparr>handle = 4, fire_at = 1200, period = None, callback = SpreadCb 2 0.6 2\<rparr>,
                \<lparr>handle = 1, fire_at = 1200, period = Some 100, callback = DecayCb 1\<rparr>],
      next_handle = 5\<rparr>"

definition at_1100b :: state where
  "at_1100b =
     \<lparr>activations = [(0, 0.95 ^ 11), (1, 0.6 * 0.95 ^ 7), (2, 0.6 * 0.95 ^ 7)],
      pulseWaves = [\<lparr>origin = (0, 0, 0), startTime = 0\<rparr>,
                    \<lparr>origin = (-1.5, 1, 0.5), startTime = 0\<rparr>,
                    \<lparr>origin = (1.5, 1, -0.5), startTime = 0\<rparr>],
      clockRef = 0, now = 1100,
      timers = [\<lparr>handle = 2, fire_at = 3000, period = None, callback = ClearCb\<rparr>,
                \<lparr>handle = 3, fire_at = 1200, period = None, callback = SpreadCb 1 0.6 2\<rparr>,
                \<lparr>handle = 4, fire_at = 1200, period = None, callback = SpreadCb 2 0.6 2\<rparr>,
                \<lparr>handle = 1, fire_at = 1200, period = Some 100, callback = DecayCb 1\<rparr>],
      next_handle = 5\<rparr>"

text \<open>
  What a callback of the scenario does to the ledger, by the wave it belongs to: the state
  before it, the timer, the state after it.
\<close>

definition waves_ok :: "state \<times> timer \<times> state \<Rightarrow> bool" where
  "waves_ok x =
     (case x of (s, t, s') \<Rightarrow>
        (callback t = SpreadCb 0 1 1 \<longrightarrow>
           map_of (activations s') 1 = Some 0.6 \<and> map_of (activations s') 2 = Some 0.6)
      \<and> (callback t = SpreadCb 1 0.6 2 \<longrightarrow>
           map_of (activations s') 3 = Some 0.36
         \<and> map_of (activations s') 2 = map_of (activations s) 2
         \<and> 0.36 \<le> get_or_zero (activations s) 2 \<and> get_or_zero (activations s) 2 < 0.6)
      \<and> (callback t = SpreadCb 2 0.6 2 \<longrightarrow> map_of (activations s') 4 = Some 0.36))"

section \<open>Properties of the ledger operations\<close>

lemma map_of_map_set: "map_of (map_set m k v) = (map_of m)(k \<mapsto> v)"
  by (induction m) (auto simp: fun_eq_iff)


lemma map_fst_map_set:
  "map fst (map_set m k v) = (if k \<in> set (map fst m) then map fst m else map fst m @ [k])"
  by (induction m) (simp_all, force)

lemma distinct_map_set: "distinct (map fst m) \<Longrightarrow> distinct (map fst (map_set m k v))"
  by (simp add: map_fst_map_set del: set_map)

lemma map_set_fresh: "k \<notin> set (map fst m) \<Longrightarrow> map_set m k v = m @ [(k, v)]"
  by (induction m) auto

lemma set_map_set: "set (map_set m k v) \<subseteq> insert (k, v) (set m)"
  by (induction m) (auto split: if_splits)

lemma get_or_zero_eq: "get_or_zero m k = (case map_of m k of None \<Rightarrow> 0 | Some v \<Rightarrow> v)"
  by (simp add: get_or_zero_def split: option.splits)

lemma get_or_zero_setIfHigher:
  "get_or_zero (setIfHigher m k t) k' =
     (if k' = k then max (get_or_zero m k) t else get_or_zero m k')"
  by (simp add: setIfHigher_def Let_def get_or_zero_eq map_of_map_set)

subsection \<open>The decay sweep as a filter\<close>

lemma map_fst_decay_kept: "map fst (decay_kept m) = map fst (filter (\<lambda>kv. snd kv * 0.95 > 0.05) m)"
  by (simp add: decay_kept_def)

lemma keys_decay_kept: "set (map fst (decay_kept m)) \<subseteq> set (map fst m)"
  unfolding map_fst_decay_kept by auto

lemma foldl_decay_entry:
  "distinct (map fst m) \<Longrightarrow> set (map fst acc) \<inter> set (map fst m) = {} \<Longrightarrow>
   foldl decay_entry (acc, b) m = (acc @ decay_kept m, b \<or> decay_kept m \<noteq> [])"
proof (induction m arbitrary: acc b)
  case Nil
  then show ?case by (simp add: decay_kept_def)
next
  case (Cons kv m)
  obtain k v where kv: "kv = (k, v)" by (cases kv)
  have fresh: "k \<notin> set (map fst acc)" using Cons.prems kv by auto
  show ?case
  proof (cases "v * 0.95 > 0.05")
    case True
    have step: "decay_entry (acc, b) kv = (acc @ [(k, v * 0.95)], True)"
      using True fresh by (simp add: decay_entry_def kv Let_def map_set_fresh)
    have "set (map fst (acc @ [(k, v * 0.95)])) \<inter> set (map fst m) = {}"
      using Cons.prems kv by auto
    with Cons.IH [of "acc @ [(k, v * 0.95)]" True] Cons.prems
    have "foldl decay_entry (acc @ [(k, v * 0.95)], True) m
            = ((acc @ [(k, v * 0.95)]) @ decay_kept m, True)"
      by simp
    with step True show ?thesis by (simp add: kv decay_kept_def)
  next
    case False
    have step: "decay_entry (acc, b) kv = (acc, b)"
      using False by (simp add: decay_entry_def kv Let_def)
    have "set (map fst acc) \<inter> set (map fst m) = {}" using Cons.prems by auto
    with Cons.IH [of acc b] Cons.prems
    have "foldl decay_entry (acc, b) m = (acc @ decay_kept m, b \<or> decay_kept m \<noteq> [])" by simp
    with step False show ?thesis by (simp add: kv decay_kept_def)
  qed
qed

lemma decayAll_kept:
  "distinct (map fst m) \<Longrightarrow> decayAll m = (decay_kept m, decay_kept m \<noteq> [])"
  using foldl_decay_entry [of m "[]" False] by (simp add: decayAll_def)

lemma map_of_map_filter:
  "distinct (map fst m) \<Longrightarrow>
   map_of (map (\<lambda>kv. (fst kv, f (snd kv))) (filter (\<lambda>kv. P (snd kv)) m)) k =
     (case map_of m k of None \<Rightarrow> None | Some v \<Rightarrow> if P v then Some (f v) else None)"
proof (induction m)
  case Nil
  then show ?case by simp
next
  case (Cons kv m)
  obtain k' v' where kv: "kv = (k', v')" by (cases kv)
  have "k' \<notin> fst ` set (filter (\<lambda>kv. P (snd kv)) m)"
    using Cons.prems kv by auto
  then have none: "map_of (map (\<lambda>kv. (fst kv, f (snd kv))) (filter (\<lambda>kv. P (snd kv)) m)) k' = None"
    by (simp add: map_of_eq_None_iff image_image)
  have none': "map_of m k' = None"
    using Cons.prems kv by (simp add: map_of_eq_None_iff)
  show ?case
    using Cons none none' by (simp add: kv)
qed

lemma map_of_decay_kept:
  "distinct (map fst m) \<Longrightarrow>
   map_of (decay_kept m) k =
     (case map_of m k of None \<Rightarrow> None
      | Some v \<Rightarrow> if v * 0.95 > 0.05 then Some (v * 0.95) else None)"
  unfolding decay_kept_def by (rule map_of_map_filter)

subsection \<open>Deliveries on the ledger as a mapping\<close>

lemma map_of_deliver: "map_of (deliver m d) = merge_max d (map_of m)"
  by (simp add: deliver_def merge_max_def setIfHigher_def Let_def get_or_zero_eq map_of_map_set)

lemma merge_max_commute: "merge_max x \<circ> merge_max y = merge_max y \<circ> merge_max x"
  by (auto simp: fun_eq_iff merge_max_def split: option.splits)

lemma map_of_foldl_deliver: "map_of (foldl deliver m ds) = fold merge_max ds (map_of m)"
  by (induction ds arbitrary: m) (simp_all add: map_of_deliver)

lemma level_foldl_mono:
  "get_or_zero m k \<le> get_or_zero (foldl (\<lambda>m e. setIfHigher m (f e) t) m es) k"
proof (induction es arbitrary: m)
  case Nil
  show ?case by simp
next
  case (Cons e es)
  have "get_or_zero m k \<le> get_or_zero (setIfHigher m (f e) t) k"
    by (simp add: get_or_zero_setIfHigher)
  also have "\<dots> \<le> get_or_zero (foldl (\<lambda>m e. setIfHigher m (f e) t) (setIfHigher m (f e) t) es) k"
    by (rule Cons.IH)
  finally show ?case by simp
qed

lemma level_foldl_delivers:
  "e \<in> set es \<Longrightarrow> t \<le> get_or_zero (foldl (\<lambda>m e. setIfHigher m (f e) t) m es) (f e)"
proof (induction es arbitrary: m)
  case Nil
  then show ?case by simp
next
  case (Cons x es)
  show ?case
  proof (cases "e = x")
    case True
    have "t \<le> get_or_zero (setIfHigher m (f x) t) (f x)"
      by (simp add: get_or_zero_setIfHigher)
    also have "\<dots> \<le> get_or_zero (foldl (\<lambda>m e. setIfHigher m (f e) t) (setIfHigher m (f x) t) es) (f x)"
      by (rule level_foldl_mono)
    finally show ?thesis using True by simp
  next
    case False
    with Cons.prems have "e \<in> set es" by simp
    from Cons.IH [OF this] show ?thesis by simp
  qed
qed

section \<open>What one call changes\<close>

lemma find_node_id:
  "distinct (map node_id ns) \<Longrightarrow> n \<in> set ns \<Longrightarrow> find (\<lambda>x. node_id x = node_id n) ns = Some n"
  by (induction ns) force+

lemma find_unknown: "i \<notin> node_id ` set ns \<Longrightarrow> find (\<lambda>x. node_id x = i) ns = None"
  by (auto simp: find_None_iff)

lemma handleActivate_Some:
  "find (\<lambda>n. node_id n = i) (nodes g) = Some node \<Longrightarrow>
   handleActivate g i s =
     setTimeout ClearCb 3000 (setInterval DecayCb 100 (spreadActivation i 1 1
       ((emit_pulse node s)\<lparr>activations := map_set (activations s) i 1\<rparr>)))"
  by (simp add: handleActivate_def Let_def emit_pulse_def)

lemma handleActivate_None:
  "find (\<lambda>n. node_id n = i) (nodes g) = None \<Longrightarrow> handleActivate g i s = s"
  by (simp add: handleActivate_def)

lemma spreadActivation_upd:
  "spreadActivation i strength depth (s\<lparr>activations := a\<rparr>)
     = (spreadActivation i strength depth s)\<lparr>activations := a\<rparr>"
  by (simp add: spreadActivation_def setTimeout_def)

lemma emit_pulse_upd: "emit_pulse n (s\<lparr>activations := a\<rparr>) = (emit_pulse n s)\<lparr>activations := a\<rparr>"
  by (simp add: emit_pulse_def)

lemma activations_spreadActivation [simp]:
  "activations (spreadActivation i strength depth s) = activations s"
  by (simp add: spreadActivation_def setTimeout_def)

lemma pulseWaves_spreadActivation [simp]:
  "pulseWaves (spreadActivation i strength depth s) = pulseWaves s"
  by (simp add: spreadActivation_def setTimeout_def)

lemma now_spreadActivation [simp]: "now (spreadActivation i strength depth s) = now s"
  by (simp add: spreadActivation_def setTimeout_def)

lemma timers_spreadActivation:
  "timers (spreadActivation i strength depth s) =
     (if depth > 3 \<or> strength < 0.1 then timers s
      else timers s @ [\<lparr>handle = next_handle s, fire_at = now s + 400 * int depth, period = None,
                        callback = SpreadCb i strength depth\<rparr>])"
  by (simp add: spreadActivation_def setTimeout_def)

lemma activations_spread_edge:
  "activations (spread_edge g sourceId strength depth s e)
     = setIfHigher (activations s) (neighborId sourceId e) (strength * 0.6)"
  by (simp add: spread_edge_def Let_def emit_pulse_def split: option.splits)

lemma now_spread_edge [simp]: "now (spread_edge g sourceId strength depth s e) = now s"
  by (simp add: spread_edge_def Let_def emit_pulse_def split: option.splits)

lemma spread_edge_upd:
  "spread_edge g sourceId strength depth (s\<lparr>activations := a\<rparr>) e
     = (spread_edge g sourceId strength depth s e)
         \<lparr>activations := setIfHigher a (neighborId sourceId e) (strength * 0.6)\<rparr>"
  by (simp add: spread_edge_def Let_def spreadActivation_upd emit_pulse_upd split: option.splits)

lemma foldl_spread_edge_upd:
  "foldl (spread_edge g sourceId strength depth) (s\<lparr>activations := a\<rparr>) es
     = (foldl (spread_edge g sourceId strength depth) s es)
         \<lparr>activations :=
            foldl (\<lambda>m e. setIfHigher m (neighborId sourceId e) (strength * 0.6)) a es\<rparr>"
proof (induction es arbitrary: s a)
  case Nil
  show ?case by simp
next
  case (Cons e es)
  show ?case by (simp add: spread_edge_upd Cons.IH)
qed

lemma activations_foldl_spread_edge:
  "activations (foldl (spread_edge g sourceId strength depth) s es)
     = foldl (\<lambda>m e. setIfHigher m (neighborId sourceId e) (strength * 0.6)) (activations s) es"
  by (induction es arbitrary: s) (simp_all add: activations_spread_edge)

lemma spread_timeout_delivers:
  "e \<in> set (connectedEdges g sourceId) \<Longrightarrow>
   strength * 0.6 \<le> get_or_zero (activations (spread_timeout g sourceId strength depth s))
                                 (neighborId sourceId e)"
  unfolding spread_timeout_def activations_foldl_spread_edge
  by (rule level_foldl_delivers)

lemma timers_spread_edge:
  "timers (spread_edge g sourceId strength depth s e) =
     (if depth + 1 > 3 \<or> strength * 0.6 < 0.1 then timers s
      else timers s @ [\<lparr>handle = next_handle s, fire_at = now s + 400 * int (depth + 1),
                        period = None,
                        callback = SpreadCb (neighborId sourceId e) (strength * 0.6) (depth + 1)\<rparr>])"
  by (simp add: spread_edge_def Let_def timers_spreadActivation emit_pulse_def
           split: option.splits)

lemma callbacks_foldl_spread_edge:
  "map callback (timers (foldl (spread_edge g sourceId strength depth) s es)) =
     (if depth + 1 > 3 \<or> strength * 0.6 < 0.1 then map callback (timers s)
      else map callback (timers s)
           @ map (\<lambda>e. SpreadCb (neighborId sourceId e) (strength * 0.6) (depth + 1)) es)"
  by (induction es arbitrary: s) (simp_all add: timers_spread_edge)

lemma timers_foldl_spread_edge_cut:
  "depth + 1 > 3 \<or> strength * 0.6 < 0.1 \<Longrightarrow>
   timers (foldl (spread_edge g sourceId strength depth) s es) = timers s"
  by (induction es arbitrary: s) (simp_all add: timers_spread_edge)

section \<open>An invariant of the reachable states\<close>

lemma ledger_ok_decay_kept: "distinct (map fst m) \<Longrightarrow> ledger_ok (decay_kept m)"
  unfolding ledger_ok_def map_fst_decay_kept
  by (auto simp: decay_kept_def distinct_map_filter)

lemma ledger_ok_map_set: "ledger_ok m \<Longrightarrow> 0 < v \<Longrightarrow> ledger_ok (map_set m k v)"
  unfolding ledger_ok_def using set_map_set [of m k v]
  by (auto simp: distinct_map_set)

lemma get_or_zero_nonneg: "ledger_ok m \<Longrightarrow> 0 \<le> get_or_zero m k"
  unfolding ledger_ok_def get_or_zero_eq
  by (auto split: option.splits dest!: map_of_SomeD)

lemma ledger_ok_setIfHigher: "ledger_ok m \<Longrightarrow> ledger_ok (setIfHigher m k t)"
  using get_or_zero_nonneg [of m k]
  by (auto simp: setIfHigher_def Let_def intro!: ledger_ok_map_set)

lemma timer_ok_fire_at [simp]: "timer_ok (t\<lparr>fire_at := x\<rparr>) = timer_ok t"
  by (simp add: timer_ok_def split: callback.splits)

lemma state_ok_emit_pulse: "state_ok (emit_pulse n s) = state_ok s"
  by (simp add: state_ok_def emit_pulse_def)

lemma state_ok_spreadActivation:
  "state_ok s \<Longrightarrow> 1 \<le> depth \<Longrightarrow> strength = 0.6 ^ (depth - 1) \<Longrightarrow>
   state_ok (spreadActivation sourceId strength depth s)"
  by (auto simp: spreadActivation_def setTimeout_def state_ok_def timer_ok_def)

lemma hop_power: "1 \<le> depth \<Longrightarrow> (0.6::rat) ^ (depth - 1) * 0.6 = 0.6 ^ depth"
  by (cases depth) simp_all

lemma state_ok_spread_edge:
  assumes "state_ok s" "1 \<le> depth" "strength = 0.6 ^ (depth - 1)"
  shows "state_ok (spread_edge g sourceId strength depth s e)"
proof -
  define n where "n = neighborId sourceId e"
  define s1 where "s1 = s\<lparr>activations := setIfHigher (activations s) n (strength * 0.6)\<rparr>"
  define s2 where "s2 = (case find (\<lambda>x. node_id x = n) (nodes g) of
                  Some neighborNode \<Rightarrow>
                    if strength * 0.6 > 0.2 then emit_pulse neighborNode s1 else s1
                | None \<Rightarrow> s1)"
  have s1: "state_ok s1"
    using assms(1) by (simp add: s1_def state_ok_def ledger_ok_setIfHigher)
  then have s2: "state_ok s2"
    by (simp add: s2_def state_ok_emit_pulse split: option.splits)
  have str: "strength * 0.6 = 0.6 ^ (depth + 1 - 1)"
    using assms(2,3) hop_power [of depth] by simp
  have "spread_edge g sourceId strength depth s e
          = spreadActivation n (strength * 0.6) (depth + 1) s2"
    by (simp only: spread_edge_def Let_def s2_def s1_def n_def)
  moreover have "state_ok (spreadActivation n (strength * 0.6) (depth + 1) s2)"
    using s2 str by (intro state_ok_spreadActivation) simp_all
  ultimately show ?thesis by simp
qed

lemma state_ok_foldl_spread_edge:
  "state_ok s \<Longrightarrow> 1 \<le> depth \<Longrightarrow> strength = 0.6 ^ (depth - 1) \<Longrightarrow>
   state_ok (foldl (spread_edge g sourceId strength depth) s es)"
  by (induction es arbitrary: s) (simp_all add: state_ok_spread_edge)

lemma state_ok_decay_interval:
  assumes "state_ok s"
  shows "state_ok (decay_interval h s)"
proof -
  have d: "distinct (map fst (activations s))"
    using assms by (simp add: state_ok_def ledger_ok_def)
  then have "ledger_ok (fst (decayAll (activations s)))"
    by (simp add: decayAll_kept ledger_ok_decay_kept)
  then show ?thesis
    using assms by (auto simp: state_ok_def decay_interval_def Let_def clearInterval_def)
qed

lemma due_mem: "t \<in> set (due s) \<Longrightarrow> t \<in> set (timers s)"
  by (simp add: due_def)

lemma set_requeue: "set (requeue t ts) \<subseteq> insert (t\<lparr>fire_at := fire_at t + the (period t)\<rparr>) (set ts)"
  by (auto simp: requeue_def Let_def split: option.splits)

lemma state_ok_fire:
  assumes "state_ok s" "t \<in> set (timers s)"
  shows "state_ok (fire g t s)"
proof -
  let ?s' = "s\<lparr>now := fire_at t, timers := requeue t (timers s)\<rparr>"
  have t: "timer_ok t" using assms by (simp add: state_ok_def)
  have s': "state_ok ?s'"
    using assms t set_requeue [of t "timers s"] by (auto simp: state_ok_def)
  show ?thesis
  proof (cases "callback t")
    case (SpreadCb sourceId strength depth)
    with t have "1 \<le> depth" "strength = 0.6 ^ (depth - 1)" by (simp_all add: timer_ok_def)
    with s' SpreadCb show ?thesis
      by (simp add: fire_def run_callback_def spread_timeout_def state_ok_foldl_spread_edge)
  next
    case (DecayCb h)
    with s' show ?thesis by (simp add: fire_def run_callback_def state_ok_decay_interval)
  next
    case ClearCb
    with s' show ?thesis by (simp add: fire_def run_callback_def clear_pulses_def state_ok_def)
  qed
qed

lemma state_ok_setInterval: "state_ok s \<Longrightarrow> state_ok (setInterval DecayCb 100 s)"
  by (simp add: setInterval_def state_ok_def timer_ok_def)

lemma state_ok_setTimeout_Clear: "state_ok s \<Longrightarrow> state_ok (setTimeout ClearCb d s)"
  by (simp add: setTimeout_def state_ok_def timer_ok_def)

lemma state_ok_handleActivate:
  assumes ok: "state_ok s"
  shows "state_ok (handleActivate g i s)"
proof (cases "find (\<lambda>n. node_id n = i) (nodes g)")
  case None
  with ok show ?thesis by (simp add: handleActivate_None)
next
  case (Some node)
  let ?s2 = "(emit_pulse node s)\<lparr>activations := map_set (activations s) i 1\<rparr>"
  have "state_ok ?s2"
    using ok by (simp add: state_ok_def emit_pulse_def ledger_ok_map_set)
  then have "state_ok (spreadActivation i 1 1 ?s2)"
    by (intro state_ok_spreadActivation) simp_all
  then show ?thesis
    by (simp only: handleActivate_Some [OF Some] state_ok_setInterval state_ok_setTimeout_Clear)
qed

lemma reachable_state_ok: "reachable g s \<Longrightarrow> state_ok s"
proof (induction rule: reachable.induct)
  case r_init
  show ?case by (simp add: state_ok_def init_state_def ledger_ok_def)
next
  case (r_activate s i)
  then show ?case by (simp add: state_ok_handleActivate)
next
  case (r_clock s c)
  then show ?case by (simp add: state_ok_def updateClock_def)
next
  case (r_fire s t)
  then show ?case by (simp add: state_ok_fire due_mem)
next
  case (r_wait s n)
  then show ?case by (simp add: state_ok_def)
qed

section \<open>The guarded property reads never fail\<close>

lemma spread_edge_checked_ok:
  "spread_edge_checked g sourceId strength depth s e
     = Inr (spread_edge g sourceId strength depth s e)"
  by (simp add: spread_edge_checked_def spread_edge_def Let_def position_of_def emit_pulse_def
           split: option.splits)

lemma foldl_checked_ok:
  "(\<And>s x. f s x = Inr (f' s x)) \<Longrightarrow> foldl_checked f s xs = Inr (foldl f' s xs)"
  by (induction xs arbitrary: s) simp_all

lemma spread_timeout_checked_ok:
  "spread_timeout_checked g sourceId strength depth s
     = Inr (spread_timeout g sourceId strength depth s)"
  unfolding spread_timeout_checked_def spread_timeout_def
  by (rule foldl_checked_ok) (rule spread_edge_checked_ok)

lemma handleActivate_checked_ok:
  "handleActivate_checked g i s = Inr (handleActivate g i s)"
  by (simp add: handleActivate_checked_def handleActivate_def Let_def position_of_def
                emit_pulse_def split: option.splits)

section \<open>The pulses of a delivery\<close>

lemma clockRef_spreadActivation [simp]:
  "clockRef (spreadActivation i strength depth s) = clockRef s"
  by (simp add: spreadActivation_def setTimeout_def)

lemma clockRef_spread_edge [simp]:
  "clockRef (spread_edge g sourceId strength depth s e) = clockRef s"
  by (simp add: spread_edge_def Let_def emit_pulse_def split: option.splits)

lemma pulseWaves_spread_edge:
  "pulseWaves (spread_edge g sourceId strength depth s e)
     = pulseWaves s @ edge_pulses g sourceId strength (clockRef s) e"
  by (simp add: spread_edge_def Let_def emit_pulse_def edge_pulses_def split: option.splits)

lemma pulseWaves_foldl_spread_edge:
  "pulseWaves (foldl (spread_edge g sourceId strength depth) s es)
     = pulseWaves s @ concat (map (edge_pulses g sourceId strength (clockRef s)) es)"
  by (induction es arbitrary: s) (simp_all add: pulseWaves_spread_edge)

section \<open>Executions in every order\<close>

lemma fire_seq_append:
  "fire_seq g (hs @ hs') s =
     (case fire_seq g hs s of None \<Rightarrow> None | Some s' \<Rightarrow> fire_seq g hs' s')"
  by (induction hs arbitrary: s) (simp_all split: option.splits)

lemma mem_explore:
  "x \<in> set (explore g (Suc n) s ts) \<longleftrightarrow>
     (\<exists>t \<in> set ts. x = (s, t, fire g t s)
                   \<or> x \<in> set (explore g n (fire g t s) (due (fire g t s))))"
  by (induction ts) (auto simp: Let_def)

lemma mem_after:
  "s' \<in> set (after g (Suc n) s ts) \<longleftrightarrow>
     (\<exists>t \<in> set ts. s' \<in> set (after g n (fire g t s) (due (fire g t s))))"
  by (induction ts) (auto simp: Let_def)

lemma mem_firings_Suc:
  "x \<in> set (firings g (Suc n) s) \<longleftrightarrow>
     (\<exists>t \<in> set (due s). x = (s, t, fire g t s) \<or> x \<in> set (firings g n (fire g t s)))"
  by (simp add: firings_def mem_explore)

lemma mem_runs_Suc:
  "s' \<in> set (runs g (Suc n) s) \<longleftrightarrow> (\<exists>t \<in> set (due s). s' \<in> set (runs g n (fire g t s)))"
  by (simp add: runs_def mem_after)

lemma runs_0: "runs g 0 s = [s]"
  by (simp add: runs_def)

lemma firings_add:
  "x \<in> set (firings g (m + n) s) \<Longrightarrow>
   x \<in> set (firings g m s) \<or> (\<exists>s' \<in> set (runs g m s). x \<in> set (firings g n s'))"
proof (induction m arbitrary: s)
  case 0
  then show ?case by (simp add: runs_0)
next
  case (Suc m)
  from Suc.prems obtain t where t: "t \<in> set (due s)"
    and x: "x = (s, t, fire g t s) \<or> x \<in> set (firings g (m + n) (fire g t s))"
    by (auto simp: mem_firings_Suc)
  from x show ?case
  proof
    assume "x = (s, t, fire g t s)"
    with t show ?thesis by (auto simp: mem_firings_Suc)
  next
    assume "x \<in> set (firings g (m + n) (fire g t s))"
    from Suc.IH [OF this] show ?thesis
    proof
      assume "x \<in> set (firings g m (fire g t s))"
      with t have "x \<in> set (firings g (Suc m) s)" by (auto simp: mem_firings_Suc)
      then show ?thesis ..
    next
      assume "\<exists>s' \<in> set (runs g m (fire g t s)). x \<in> set (firings g n s')"
      then obtain s' where s': "s' \<in> set (runs g m (fire g t s))"
        and x': "x \<in> set (firings g n s')" by auto
      from s' t have "s' \<in> set (runs g (Suc m) s)" by (auto simp: mem_runs_Suc)
      with x' show ?thesis by blast
    qed
  qed
qed

lemma stage:
  assumes "list_all P (firings g m s)"
    and "\<forall>s' \<in> set (runs g m s). \<forall>x \<in> set (firings g n s'). P x"
  shows "\<forall>x \<in> set (firings g (m + n) s). P x"
proof
  fix x
  assume "x \<in> set (firings g (m + n) s)"
  from firings_add [OF this] show "P x"
    using assms by (auto simp: list_all_iff)
qed

lemma runs_firing:
  "s1 \<in> set (runs g m s) \<Longrightarrow> t \<in> set (due s1) \<Longrightarrow> m < n
   \<Longrightarrow> (s1, t, fire g t s1) \<in> set (firings g n s)"
proof (induction m arbitrary: s n)
  case 0
  then obtain k where "n = Suc k" by (cases n) auto
  with 0 show ?case by (auto simp: runs_0 mem_firings_Suc)
next
  case (Suc m)
  from Suc.prems(3) obtain k where n: "n = Suc k" and k: "m < k" by (cases n) auto
  from Suc.prems(1) obtain u where u: "u \<in> set (due s)"
    and s1: "s1 \<in> set (runs g m (fire g u s))"
    by (auto simp: mem_runs_Suc)
  from Suc.IH [OF s1 Suc.prems(2) k] u show ?case
    unfolding n by (auto simp: mem_firings_Suc)
qed

lemma runs_add:
  "s1 \<in> set (runs g m s) \<Longrightarrow> s2 \<in> set (runs g n s1) \<Longrightarrow> s2 \<in> set (runs g (m + n) s)"
proof (induction m arbitrary: s)
  case 0
  then show ?case by (simp add: runs_0)
next
  case (Suc m)
  from Suc.prems(1) obtain u where u: "u \<in> set (due s)"
    and s1: "s1 \<in> set (runs g m (fire g u s))"
    by (auto simp: mem_runs_Suc)
  from Suc.IH [OF s1 Suc.prems(2)] u show ?case by (auto simp: mem_runs_Suc)
qed

lemma reachable_runs: "reachable g s \<Longrightarrow> s' \<in> set (runs g n s) \<Longrightarrow> reachable g s'"
proof (induction n arbitrary: s)
  case 0
  then show ?case by (simp add: runs_0)
next
  case (Suc n)
  from Suc.prems(2) obtain u where u: "u \<in> set (due s)"
    and s': "s' \<in> set (runs g n (fire g u s))"
    by (auto simp: mem_runs_Suc)
  from Suc.prems(1) u have "reachable g (fire g u s)" by (rule r_fire)
  from Suc.IH [OF this s'] show ?case .
qed

section \<open>The reference scenario, stage by stage\<close>

text \<open>
  A click on node 0 of the reference graph at time 0. The first three callbacks are decay
  ticks. At time 400 the first propagation (handle 0) and a decay tick (handle 1) are due
  together; seven decay ticks follow; at time 1200 the propagations from node 1 (handle 3)
  and from node 2 (handle 4) and a decay tick are due together. Every order of the
  callbacks due together is followed.
\<close>

lemma scenario_0:
  "handleActivate ref_graph 0 init_state =
     \<lparr>activations = [(0, 1)],
      pulseWaves = [\<lparr>origin = (0, 0, 0), startTime = 0\<rparr>], clockRef = 0, now = 0,
      timers = [\<lparr>handle = 0, fire_at = 400, period = None, callback = SpreadCb 0 1 1\<rparr>,
                \<lparr>handle = 1, fire_at = 100, period = Some 100, callback = DecayCb 1\<rparr>,
                \<lparr>handle = 2, fire_at = 3000, period = None, callback = ClearCb\<rparr>],
      next_handle = 3\<rparr>"
  by code_simp

lemma reachable_scenario_0: "reachable ref_graph (handleActivate ref_graph 0 init_state)"
  by (intro r_activate r_init)

lemma runs_300: "runs ref_graph 3 (handleActivate ref_graph 0 init_state) = [at_300]"
  by code_simp

lemma runs_400: "runs ref_graph 2 at_300 = [at_400a, at_400b]"
  by code_simp

lemma runs_1100a: "runs ref_graph 7 at_400a = [at_1100a]"
  by code_simp

lemma runs_1100b: "runs ref_graph 7 at_400b = [at_1100b]"
  by code_simp

lemma at_1100_reached:
  "at_1100a \<in> set (runs ref_graph 12 (handleActivate ref_graph 0 init_state))"
  "at_1100b \<in> set (runs ref_graph 12 (handleActivate ref_graph 0 init_state))"
proof -
  have 3: "at_300 \<in> set (runs ref_graph 3 (handleActivate ref_graph 0 init_state))"
    by (simp add: runs_300)
  have "at_400a \<in> set (runs ref_graph (3 + 2) (handleActivate ref_graph 0 init_state))"
    by (rule runs_add [OF 3]) (simp add: runs_400)
  then have "at_1100a \<in> set (runs ref_graph (3 + 2 + 7) (handleActivate ref_graph 0 init_state))"
    by (rule runs_add) (simp add: runs_1100a)
  then show "at_1100a \<in> set (runs ref_graph 12 (handleActivate ref_graph 0 init_state))"
    by simp
  have "at_400b \<in> set (runs ref_graph (3 + 2) (handleActivate ref_graph 0 init_state))"
    by (rule runs_add [OF 3]) (simp add: runs_400)
  then have "at_1100b \<in> set (runs ref_graph (3 + 2 + 7) (handleActivate ref_graph 0 init_state))"
    by (rule runs_add) (simp add: runs_1100b)
  then show "at_1100b \<in> set (runs ref_graph 12 (handleActivate ref_graph 0 init_state))"
    by simp
qed

lemma due_1100:
  "\<lparr>handle = 3, fire_at = 1200, period = None, callback = SpreadCb 1 0.6 2\<rparr> \<in> set (due at_1100a)"
  "\<lparr>handle = 3, fire_at = 1200, period = None, callback = SpreadCb 1 0.6 2\<rparr> \<in> set (due at_1100b)"
  "\<lparr>handle = 4, fire_at = 1200, period = None, callback = SpreadCb 2 0.6 2\<rparr> \<in> set (due at_1100a)"
  "\<lparr>handle = 0, fire_at = 400, period = None, callback = SpreadCb 0 1 1\<rparr> \<in> set (due at_300)"
  by code_simp+

lemma sched_300:
  "fire_seq ref_graph [1, 1, 1] (handleActivate ref_graph 0 init_state) = Some at_300"
  by code_simp

lemma sched_400a: "fire_seq ref_graph [0, 1] at_300 = Some at_400a"
  by code_simp

lemma sched_400b: "fire_seq ref_graph [1, 0] at_300 = Some at_400b"
  by code_simp

lemma sched_1100a: "fire_seq ref_graph [1, 1, 1, 1, 1, 1, 1] at_400a = Some at_1100a"
  by code_simp

lemma waves_300: "list_all waves_ok (firings ref_graph 3 (handleActivate ref_graph 0 init_state))"
  by code_simp

lemma waves_400: "list_all waves_ok (firings ref_graph 2 at_300)"
  by code_simp

lemma waves_1100a: "list_all waves_ok (firings ref_graph 7 at_400a)"
  by code_simp

lemma waves_1100b: "list_all waves_ok (firings ref_graph 7 at_400b)"
  by code_simp

lemma waves_1200a: "list_all waves_ok (firings ref_graph 3 at_1100a)"
  by code_simp

lemma waves_1200b: "list_all waves_ok (firings ref_graph 3 at_1100b)"
  by code_simp

lemma waves_all:
  "\<forall>x \<in> set (firings ref_graph 15 (handleActivate ref_graph 0 init_state)). waves_ok x"
proof -
  have a: "\<forall>x \<in> set (firings ref_graph (7 + 3) at_400a). waves_ok x"
    using waves_1200a by (intro stage waves_1100a) (simp add: runs_1100a list_all_iff)
  have b: "\<forall>x \<in> set (firings ref_graph (7 + 3) at_400b). waves_ok x"
    using waves_1200b by (intro stage waves_1100b) (simp add: runs_1100b list_all_iff)
  have c: "\<forall>x \<in> set (firings ref_graph (2 + 10) at_300). waves_ok x"
    using a b by (intro stage waves_400) (simp add: runs_400)
  have "\<forall>x \<in> set (firings ref_graph (3 + 12) (handleActivate ref_graph 0 init_state)). waves_ok x"
    using c by (intro stage waves_300) (simp add: runs_300)
  then show ?thesis by simp
qed

section \<open>Monotonic merge\<close>




section \<open>Depth and strength cutoff\<close>

text \<open>
  Claim C2, as the code has it. A call of \<open>spreadActivation\<close> with a depth above 3, or with
  a strength below 0.1, changes nothing; otherwise it registers one timeout, \<open>400 * depth\<close>
  later. When that timeout fires, every incident edge delivers \<open>strength * 0.6\<close> to its
  other endpoint. At depth 3, whatever the strength, and whenever \<open>strength * 0.6\<close> is
  below 0.1, whatever the depth, no further hop is registered; below both cutoffs exactly
  one hop per incident edge is registered, with the delivered strength and the next depth.
  In every reachable state the pending hops have depth 1, 2 or 3 and deliver 0.6, 0.36 and
  0.216: the strength 0.1296 of a fourth hop is never delivered.
\<close>

theorem depth_strength_cutoff:
  "(3 < depth \<or> strength < 0.1 \<longrightarrow> spreadActivation sourceId strength depth s = s)
   \<and> (depth \<le> 3 \<and> 0.1 \<le> strength \<longrightarrow>
        timers (spreadActivation sourceId strength depth s) =
          timers s @ [\<lparr>handle = next_handle s, fire_at = now s + 400 * int depth, period = None,
                       callback = SpreadCb sourceId strength depth\<rparr>])
   \<and> (3 \<le> depth \<or> strength * 0.6 < 0.1 \<longrightarrow>
        timers (spread_timeout g sourceId strength depth s) = timers s)
   \<and> (depth < 3 \<and> 0.1 \<le> strength * 0.6 \<longrightarrow>
        map callback (timers (spread_timeout g sourceId strength depth s)) =
          map callback (timers s)
          @ map (\<lambda>e. SpreadCb (neighborId sourceId e) (strength * 0.6) (depth + 1))
                (connectedEdges g sourceId))
   \<and> (\<forall>e \<in> set (connectedEdges g sourceId).
         strength * 0.6 \<le> get_or_zero (activations (spread_timeout g sourceId strength depth s))
                                       (neighborId sourceId e))
   \<and> (reachable g s \<longrightarrow>
        (\<forall>t \<in> set (timers s). \<forall>src str d. callback t = SpreadCb src str d \<longrightarrow>
           (d = 1 \<and> str * 0.6 = 0.6) \<or> (d = 2 \<and> str * 0.6 = 0.36)
           \<or> (d = 3 \<and> str * 0.6 = 0.216)))"
proof (intro conjI impI ballI allI)
  assume "3 < depth \<or> strength < 0.1"
  then show "spreadActivation sourceId strength depth s = s"
    by (auto simp: spreadActivation_def)
next
  assume "depth \<le> 3 \<and> 0.1 \<le> strength"
  then show "timers (spreadActivation sourceId strength depth s) =
          timers s @ [\<lparr>handle = next_handle s, fire_at = now s + 400 * int depth, period = None,
                       callback = SpreadCb sourceId strength depth\<rparr>]"
    by (auto simp: timers_spreadActivation)
next
  assume "3 \<le> depth \<or> strength * 0.6 < 0.1"
  then have "depth + 1 > 3 \<or> strength * 0.6 < 0.1" by auto
  then show "timers (spread_timeout g sourceId strength depth s) = timers s"
    unfolding spread_timeout_def by (rule timers_foldl_spread_edge_cut)
next
  assume "depth < 3 \<and> 0.1 \<le> strength * 0.6"
  then have "\<not> (depth + 1 > 3 \<or> strength * 0.6 < 0.1)" by auto
  then show "map callback (timers (spread_timeout g sourceId strength depth s)) =
          map callback (timers s)
          @ map (\<lambda>e. SpreadCb (neighborId sourceId e) (strength * 0.6) (depth + 1))
                (connectedEdges g sourceId)"
    unfolding spread_timeout_def callbacks_foldl_spread_edge by simp
next
  fix e assume "e \<in> set (connectedEdges g sourceId)"
  then show "strength * 0.6 \<le> get_or_zero (activations (spread_timeout g sourceId strength depth s))
                                       (neighborId sourceId e)"
    by (rule spread_timeout_delivers)
next
  fix t src str d
  assume r: "reachable g s" and t: "t \<in> set (timers s)" and cb: "callback t = SpreadCb src str d"
  have "timer_ok t" using reachable_state_ok [OF r] t by (simp add: state_ok_def)
  with cb have d: "1 \<le> d" "d \<le> 3" and str: "str = 0.6 ^ (d - 1)"
    by (simp_all add: timer_ok_def)
  from d have "d = 1 \<or> d = 2 \<or> d = 3" by auto
  then show "(d = 1 \<and> str * 0.6 = 0.6) \<or> (d = 2 \<and> str * 0.6 = 0.36)
           \<or> (d = 3 \<and> str * 0.6 = 0.216)"
    using str by (auto simp: power2_eq_square)
qed

text \<open>
  Claim C2 at a call of depth 4 and strength 0.216, at a call of depth 1 and strength 0.05,
  at the delivery of depth 3 from node 4, and at the first delivery after a click on node 0
  of the reference graph.
\<close>

theorem depth_strength_cutoff_witness:
  "(3::nat) < 4 \<and> spreadActivation 5 0.216 4 init_state = init_state
   \<and> (0.05::rat) < 0.1 \<and> spreadActivation 0 0.05 1 init_state = init_state
   \<and> reachable ref_graph (handleActivate ref_graph 0 init_state)
   \<and> map callback (timers (spread_timeout ref_graph 0 1 1 (handleActivate ref_graph 0 init_state)))
       = [SpreadCb 0 1 1, DecayCb 1, ClearCb, SpreadCb 1 0.6 2, SpreadCb 2 0.6 2]
   \<and> timers (spread_timeout ref_graph 4 0.36 3 init_state) = timers init_state"
proof -
  have 1: "spreadActivation 5 0.216 4 init_state = init_state"
    using depth_strength_cutoff [of 4 "0.216" 5 init_state ref_graph] by simp
  have 2: "spreadActivation 0 0.05 1 init_state = init_state"
    using depth_strength_cutoff [of 1 "0.05" 0 init_state ref_graph] by simp
  have 3: "timers (spread_timeout ref_graph 4 0.36 3 init_state) = timers init_state"
    using depth_strength_cutoff [of 3 "0.36" 4 init_state ref_graph] by simp
  have ce: "connectedEdges ref_graph 0 = [\<lparr>source = 0, target = 1\<rparr>, \<lparr>source = 0, target = 2\<rparr>]"
    by (simp add: connectedEdges_def ref_graph_def ref_edges_def)
  have 4: "map callback (timers (spread_timeout ref_graph 0 1 1 (handleActivate ref_graph 0 init_state)))
       = [SpreadCb 0 1 1, DecayCb 1, ClearCb, SpreadCb 1 0.6 2, SpreadCb 2 0.6 2]"
    using depth_strength_cutoff [of 1 1 0 "handleActivate ref_graph 0 init_state" ref_graph]
    by (simp add: ce neighborId_def scenario_0)
  show ?thesis using 1 2 3 4 reachable_scenario_0 by simp
qed

text \<open>
  Against claim C2 as stated: the delivery of depth 3 from node 4 of the reference graph
  gives node 5 the level 0.216 and calls \<open>spreadActivation\<close> for node 5 with strength 0.216
  and depth 4. Although \<open>0.216 * 0.6 = 0.1296\<close> is not below 0.1, that call registers
  nothing, so the hop of depth 4 does not propagate.
\<close>

theorem depth4_hop_counterexample:
  "(0.1::rat) \<le> 0.216 * 0.6
   \<and> spreadActivation 5 0.216 4 init_state = init_state
   \<and> map_of (activations (spread_timeout ref_graph 4 0.36 3 init_state)) 5 = Some 0.216
   \<and> timers (spread_timeout ref_graph 4 0.36 3 init_state) = []"
  by code_simp

section \<open>Immediate effect of an activation\<close>

text \<open>
  Claim C3. For a node \<open>n\<close> of a graph whose node ids are distinct, \<open>handleActivate\<close>
  returns, before any timer has fired, a state in which the ledger holds 1 for \<open>n\<close> and
  is unchanged elsewhere, the pulse list has grown by exactly one pulse, at the position of
  \<open>n\<close> and stamped with the value of \<open>clockRef\<close>, the time has not moved, and every
  newly registered timer is due strictly later.
\<close>

theorem activate_immediate:
  "n \<in> set (nodes g) \<Longrightarrow> distinct (map node_id (nodes g)) \<Longrightarrow>
     map_of (activations (handleActivate g (node_id n) s)) (node_id n) = Some 1
   \<and> (\<forall>k. k \<noteq> node_id n \<longrightarrow>
         map_of (activations (handleActivate g (node_id n) s)) k = map_of (activations s) k)
   \<and> pulseWaves (handleActivate g (node_id n) s)
       = pulseWaves s @ [\<lparr>origin = position n, startTime = clockRef s\<rparr>]
   \<and> now (handleActivate g (node_id n) s) = now s
   \<and> (\<forall>t \<in> set (timers (handleActivate g (node_id n) s)).
         t \<in> set (timers s) \<or> now s < fire_at t)"
proof -
  assume n: "n \<in> set (nodes g)" and d: "distinct (map node_id (nodes g))"
  have f: "find (\<lambda>x. node_id x = node_id n) (nodes g) = Some n"
    using d n by (rule find_node_id)
  show ?thesis
    unfolding handleActivate_Some [OF f]
    by (auto simp: setTimeout_def setInterval_def timers_spreadActivation emit_pulse_def
                   map_of_map_set)
qed

text \<open>
  Claim C3 at node 0 of the reference graph, from the initial state.
\<close>

theorem activate_immediate_witness:
  "hd ref_nodes \<in> set (nodes ref_graph) \<and> distinct (map node_id (nodes ref_graph))
   \<and> node_id (hd ref_nodes) = 0
   \<and> map_of (activations (handleActivate ref_graph 0 init_state)) 0 = Some 1
   \<and> pulseWaves (handleActivate ref_graph 0 init_state)
       = [\<lparr>origin = (0, 0, 0), startTime = 0\<rparr>]"
proof -
  have n: "hd ref_nodes \<in> set (nodes ref_graph)"
    by (simp add: ref_graph_def ref_nodes_def)
  have d: "distinct (map node_id (nodes ref_graph))"
    by (simp add: ref_graph_def ref_nodes_def)
  have i: "node_id (hd ref_nodes) = 0" "position (hd ref_nodes) = (0, 0, 0)"
    by (simp_all add: ref_nodes_def)
  show ?thesis
    using activate_immediate [OF n d, of init_state] n d i
    by (simp add: init_state_def)
qed

section \<open>Decay sweep\<close>

text \<open>
  Claim C4. In a reachable state, when a pending decay callback fires: every ledger entry
  \<open>v\<close> with \<open>v * 0.95 > 0.05\<close> becomes \<open>v * 0.95\<close>, every other entry is removed, no
  entry is created, and the level of every node that had an entry is strictly lower than
  before. The interval is registered again, 100 later, exactly when the sweep leaves the
  ledger non-empty; when the ledger is empty afterwards no timer with its handle remains.
\<close>

theorem decay_sweep:
  "reachable g s \<Longrightarrow> t \<in> set (timers s) \<Longrightarrow> callback t = DecayCb h \<Longrightarrow>
     (\<forall>k v. map_of (activations s) k = Some v \<longrightarrow>
         map_of (activations (fire g t s)) k
           = (if v * 0.95 > 0.05 then Some (v * 0.95) else None)
       \<and> get_or_zero (activations (fire g t s)) k < v)
   \<and> (\<forall>k. map_of (activations s) k = None \<longrightarrow> map_of (activations (fire g t s)) k = None)
   \<and> timers (fire g t s) =
       (if activations (fire g t s) = []
        then filter (\<lambda>u. handle u \<noteq> handle t) (timers s)
        else filter (\<lambda>u. handle u \<noteq> handle t) (timers s) @ [t\<lparr>fire_at := fire_at t + 100\<rparr>])"
proof -
  assume r: "reachable g s" and t: "t \<in> set (timers s)" and cb: "callback t = DecayCb h"
  have ok: "state_ok s" using r by (rule reachable_state_ok)
  then have tok: "timer_ok t" using t by (simp add: state_ok_def)
  with cb have h: "h = handle t" and p: "period t = Some 100" by (simp_all add: timer_ok_def)
  have d: "distinct (map fst (activations s))"
    using ok by (simp add: state_ok_def ledger_ok_def)
  have pos: "0 < v" if "map_of (activations s) k = Some v" for k v
    using ok map_of_SomeD [OF that] by (auto simp: state_ok_def ledger_ok_def)
  have dk: "decayAll (activations s) = (decay_kept (activations s), decay_kept (activations s) \<noteq> [])"
    using d by (rule decayAll_kept)
  have act: "activations (fire g t s) = decay_kept (activations s)"
    by (simp add: fire_def run_callback_def cb decay_interval_def Let_def dk clearInterval_def)
  have tm: "timers (fire g t s) =
       (if decay_kept (activations s) = []
        then filter (\<lambda>u. handle u \<noteq> handle t) (timers s)
        else filter (\<lambda>u. handle u \<noteq> handle t) (timers s) @ [t\<lparr>fire_at := fire_at t + 100\<rparr>])"
    by (simp add: fire_def run_callback_def cb decay_interval_def Let_def dk clearInterval_def
                  requeue_def p h)
  have m: "map_of (decay_kept (activations s)) k =
     (case map_of (activations s) k of None \<Rightarrow> None
      | Some v \<Rightarrow> if v * 0.95 > 0.05 then Some (v * 0.95) else None)" for k
    using d by (rule map_of_decay_kept)
  have less: "get_or_zero (decay_kept (activations s)) k < v"
    if "map_of (activations s) k = Some v" for k v
    using pos [OF that] by (simp add: get_or_zero_eq m that)
  show ?thesis
    unfolding act using tm m less by simp
qed

text \<open>
  Claim C4 at the first decay tick after a click on node 0 of the reference graph: the
  level of node 0 goes from 1 to 0.95 and the tick is pending again at time 200.
\<close>

theorem decay_sweep_witness:
  "reachable ref_graph (handleActivate ref_graph 0 init_state)
   \<and> \<lparr>handle = 1, fire_at = 100, period = Some 100, callback = DecayCb 1\<rparr>
       \<in> set (timers (handleActivate ref_graph 0 init_state))
   \<and> map_of (activations (handleActivate ref_graph 0 init_state)) 0 = Some 1
   \<and> map_of (activations (fire ref_graph
         \<lparr>handle = 1, fire_at = 100, period = Some 100, callback = DecayCb 1\<rparr>
         (handleActivate ref_graph 0 init_state))) 0 = Some 0.95
   \<and> \<lparr>handle = 1, fire_at = 200, period = Some 100, callback = DecayCb 1\<rparr>
       \<in> set (timers (fire ref_graph
         \<lparr>handle = 1, fire_at = 100, period = Some 100, callback = DecayCb 1\<rparr>
         (handleActivate ref_graph 0 init_state)))"
proof -
  let ?t = "\<lparr>handle = 1, fire_at = 100, period = Some 100, callback = DecayCb 1\<rparr>"
  let ?s = "handleActivate ref_graph 0 init_state"
  have t: "?t \<in> set (timers ?s)" by (simp add: scenario_0)
  have cb: "callback ?t = DecayCb 1" by simp
  have a: "map_of (activations ?s) 0 = Some 1" by (simp add: scenario_0)
  note th = decay_sweep [OF reachable_scenario_0 t cb]
  from th a have 1: "map_of (activations (fire ref_graph ?t ?s)) 0 = Some 0.95"
    by simp
  then have "activations (fire ref_graph ?t ?s) \<noteq> []" by auto
  with th have 2: "?t\<lparr>fire_at := fire_at ?t + 100\<rparr> \<in> set (timers (fire ref_graph ?t ?s))"
    by simp
  show ?thesis using reachable_scenario_0 t a 1 2 by simp
qed

section \<open>End-to-end scenario\<close>

text \<open>
  Claim C5, as the code has it. On the reference graph a click on node 0 at once gives
  node 0 the level 1 and one pulse at its position. Among the first 15 timer callbacks, in
  every order in which callbacks due at the same time can fire: the first propagation sets
  nodes 1 and 2 to 0.6; the propagation from node 1 sets node 3 to 0.36 and leaves the
  entry of node 2, which it reaches over the edge between 1 and 2 with 0.36, as it was, at
  a level that the decay ticks have by then lowered below 0.6 but not below 0.36; and the
  propagation from node 2 sets node 4 to 0.36.
\<close>

theorem reference_scenario:
  "activations (handleActivate ref_graph 0 init_state) = [(0, 1)]
   \<and> pulseWaves (handleActivate ref_graph 0 init_state)
       = [\<lparr>origin = (0, 0, 0), startTime = 0\<rparr>]
   \<and> (\<forall>(s, t, s') \<in> set (firings ref_graph 15 (handleActivate ref_graph 0 init_state)).
        (callback t = SpreadCb 0 1 1 \<longrightarrow>
           map_of (activations s') 1 = Some 0.6 \<and> map_of (activations s') 2 = Some 0.6)
      \<and> (callback t = SpreadCb 1 0.6 2 \<longrightarrow>
           map_of (activations s') 3 = Some 0.36
         \<and> map_of (activations s') 2 = map_of (activations s) 2
         \<and> 0.36 \<le> get_or_zero (activations s) 2 \<and> get_or_zero (activations s) 2 < 0.6)
      \<and> (callback t = SpreadCb 2 0.6 2 \<longrightarrow> map_of (activations s') 4 = Some 0.36))"
proof (intro conjI)
  show "activations (handleActivate ref_graph 0 init_state) = [(0, 1)]"
    by (simp add: scenario_0)
  show "pulseWaves (handleActivate ref_graph 0 init_state)
       = [\<lparr>origin = (0, 0, 0), startTime = 0\<rparr>]"
    by (simp add: scenario_0)
  show "\<forall>(s, t, s') \<in> set (firings ref_graph 15 (handleActivate ref_graph 0 init_state)).
        (callback t = SpreadCb 0 1 1 \<longrightarrow>
           map_of (activations s') 1 = Some 0.6 \<and> map_of (activations s') 2 = Some 0.6)
      \<and> (callback t = SpreadCb 1 0.6 2 \<longrightarrow>
           map_of (activations s') 3 = Some 0.36
         \<and> map_of (activations s') 2 = map_of (activations s) 2
         \<and> 0.36 \<le> get_or_zero (activations s) 2 \<and> get_or_zero (activations s) 2 < 0.6)
      \<and> (callback t = SpreadCb 2 0.6 2 \<longrightarrow> map_of (activations s') 4 = Some 0.36)"
    using waves_all unfolding waves_ok_def .
qed

text \<open>
  Claim C5 at four of the callbacks: the first propagation, fired before the decay tick
  due with it at time 400; then the propagation from node 1 and the propagation from node
  2, each fired first of the callbacks due at time 1200; and the propagation from node 1
  when the decay tick came first at time 400. Node 3 gets 0.36 and node 2 keeps
  \<open>0.6 * 0.95 ^ 8\<close> in one order, \<open>0.6 * 0.95 ^ 7\<close> in the other.
\<close>

theorem reference_scenario_witness:
  "(at_300, \<lparr>handle = 0, fire_at = 400, period = None, callback = SpreadCb 0 1 1\<rparr>,
      fire ref_graph \<lparr>handle = 0, fire_at = 400, period = None, callback = SpreadCb 0 1 1\<rparr>
        at_300)
     \<in> set (firings ref_graph 15 (handleActivate ref_graph 0 init_state))
   \<and> map_of (activations (fire ref_graph
         \<lparr>handle = 0, fire_at = 400, period = None, callback = SpreadCb 0 1 1\<rparr> at_300)) 1
       = Some 0.6
   \<and> map_of (activations (fire ref_graph
         \<lparr>handle = 0, fire_at = 400, period = None, callback = SpreadCb 0 1 1\<rparr> at_300)) 2
       = Some 0.6
   \<and> (at_1100a, \<lparr>handle = 3, fire_at = 1200, period = None, callback = SpreadCb 1 0.6 2\<rparr>,
      fire ref_graph \<lparr>handle = 3, fire_at = 1200, period = None, callback = SpreadCb 1 0.6 2\<rparr>
        at_1100a)
     \<in> set (firings ref_graph 15 (handleActivate ref_graph 0 init_state))
   \<and> map_of (activations at_1100a) 2 = Some (0.6 * 0.95 ^ 8)
   \<and> map_of (activations (fire ref_graph
         \<lparr>handle = 3, fire_at = 1200, period = None, callback = SpreadCb 1 0.6 2\<rparr> at_1100a)) 3
       = Some 0.36
   \<and> map_of (activations (fire ref_graph
         \<lparr>handle = 3, fire_at = 1200, period = None, callback = SpreadCb 1 0.6 2\<rparr> at_1100a)) 2
       = Some (0.6 * 0.95 ^ 8)
   \<and> (at_1100a, \<lparr>handle = 4, fire_at = 1200, period = None, callback = SpreadCb 2 0.6 2\<rparr>,
      fire ref_graph \<lparr>handle = 4, fire_at = 1200, period = None, callback = SpreadCb 2 0.6 2\<rparr>
        at_1100a)
     \<in> set (firings ref_graph 15 (handleActivate ref_graph 0 init_state))
   \<and> map_of (activations (fire ref_graph
         \<lparr>handle = 4, fire_at = 1200, period = None, callback = SpreadCb 2 0.6 2\<rparr> at_1100a)) 4
       = Some 0.36
   \<and> (at_1100b, \<lparr>handle = 3, fire_at = 1200, period = None, callback = SpreadCb 1 0.6 2\<rparr>,
      fire ref_graph \<lparr>handle = 3, fire_at = 1200, period = None, callback = SpreadCb 1 0.6 2\<rparr>
        at_1100b)
     \<in> set (firings ref_graph 15 (handleActivate ref_graph 0 init_state))
   \<and> map_of (activations at_1100b) 2 = Some (0.6 * 0.95 ^ 7)
   \<and> map_of (activations (fire ref_graph
         \<lparr>handle = 3, fire_at = 1200, period = None, callback = SpreadCb 1 0.6 2\<rparr> at_1100b)) 3
       = Some 0.36
   \<and> map_of (activations (fire ref_graph
         \<lparr>handle = 3, fire_at = 1200, period = None, callback = SpreadCb 1 0.6 2\<rparr> at_1100b)) 2
       = Some (0.6 * 0.95 ^ 7)"
proof -
  let ?first = "\<lparr>handle = 0, fire_at = 400, period = None, callback = SpreadCb 0 1 1\<rparr>"
  let ?t = "\<lparr>handle = 3, fire_at = 1200, period = None, callback = SpreadCb 1 0.6 2\<rparr>"
  let ?second = "\<lparr>handle = 4, fire_at = 1200, period = None, callback = SpreadCb 2 0.6 2\<rparr>"
  have r3: "at_300 \<in> set (runs ref_graph 3 (handleActivate ref_graph 0 init_state))"
    by (simp add: runs_300)
  have m0: "(at_300, ?first, fire ref_graph ?first at_300)
              \<in> set (firings ref_graph 15 (handleActivate ref_graph 0 init_state))"
    by (rule runs_firing [OF r3 due_1100(4)]) simp
  have ma: "(at_1100a, ?t, fire ref_graph ?t at_1100a)
              \<in> set (firings ref_graph 15 (handleActivate ref_graph 0 init_state))"
    by (rule runs_firing [OF at_1100_reached(1) due_1100(1)]) simp
  have m4: "(at_1100a, ?second, fire ref_graph ?second at_1100a)
              \<in> set (firings ref_graph 15 (handleActivate ref_graph 0 init_state))"
    by (rule runs_firing [OF at_1100_reached(1) due_1100(3)]) simp
  have mb: "(at_1100b, ?t, fire ref_graph ?t at_1100b)
              \<in> set (firings ref_graph 15 (handleActivate ref_graph 0 init_state))"
    by (rule runs_firing [OF at_1100_reached(2) due_1100(2)]) simp
  have la: "map_of (activations at_1100a) 2 = Some (0.6 * 0.95 ^ 8)"
    by (simp add: at_1100a_def)
  have lb: "map_of (activations at_1100b) 2 = Some (0.6 * 0.95 ^ 7)"
    by (simp add: at_1100b_def)
  from reference_scenario
  have all: "\<forall>(s, t, s') \<in> set (firings ref_graph 15 (handleActivate ref_graph 0 init_state)).
        (callback t = SpreadCb 0 1 1 \<longrightarrow>
           map_of (activations s') 1 = Some 0.6 \<and> map_of (activations s') 2 = Some 0.6)
      \<and> (callback t = SpreadCb 1 0.6 2 \<longrightarrow>
           map_of (activations s') 3 = Some 0.36
         \<and> map_of (activations s') 2 = map_of (activations s) 2)
      \<and> (callback t = SpreadCb 2 0.6 2 \<longrightarrow> map_of (activations s') 4 = Some 0.36)"
    by fast
  from bspec [OF all m0] bspec [OF all ma] bspec [OF all m4] bspec [OF all mb]
       m0 ma m4 mb la lb
  show ?thesis by simp
qed

text \<open>
  Against claim C5 as stated: fire the three decay ticks, the first propagation, eight more
  decay ticks and then the propagation from node 1 (the timers with the handles listed).
  Each is due at its turn; the time is then 1200, node 3 holds 0.36, and the level of node
  2 is not 0.6.
\<close>

theorem reference_scenario_counterexample:
  "fire_seq ref_graph [1, 1, 1, 0, 1, 1, 1, 1, 1, 1, 1, 1, 3]
       (handleActivate ref_graph 0 init_state) \<noteq> None
   \<and> now (the (fire_seq ref_graph [1, 1, 1, 0, 1, 1, 1, 1, 1, 1, 1, 1, 3]
                 (handleActivate ref_graph 0 init_state))) = 1200
   \<and> map_of (activations (the (fire_seq ref_graph [1, 1, 1, 0, 1, 1, 1, 1, 1, 1, 1, 1, 3]
                 (handleActivate ref_graph 0 init_state)))) 3 = Some 0.36
   \<and> map_of (activations (the (fire_seq ref_graph [1, 1, 1, 0, 1, 1, 1, 1, 1, 1, 1, 1, 3]
                 (handleActivate ref_graph 0 init_state)))) 2 \<noteq> Some 0.6"
proof -
  have "fire_seq ref_graph [1, 1, 1, 0, 1, 1, 1, 1, 1, 1, 1, 1, 3]
          (handleActivate ref_graph 0 init_state)
        = fire_seq ref_graph ([1, 1, 1] @ [0, 1] @ [1, 1, 1, 1, 1, 1, 1] @ [3])
            (handleActivate ref_graph 0 init_state)"
    by simp
  also have "\<dots> = fire_seq ref_graph [3] at_1100a"
    by (simp only: fire_seq_append sched_300 sched_400a sched_1100a option.case)
  finally show ?thesis
    by (simp only:) code_simp
qed

section \<open>Order of deliveries and decay ticks\<close>

text \<open>
  Claim C6, as the code has it. Deliveries commute with one another: two lists of
  \<open>setIfHigher\<close> updates that differ only in their order give the same mapping from node
  ids to levels.
\<close>

theorem deliveries_commute:
  "mset ds = mset ds' \<Longrightarrow> map_of (foldl deliver m ds) = map_of (foldl deliver m ds')"
proof -
  assume "mset ds = mset ds'"
  then have "fold merge_max ds = fold merge_max ds'"
    by (intro fold_multiset_equiv merge_max_commute)
  then show ?thesis by (simp add: map_of_foldl_deliver)
qed

text \<open>
  Claim C6 at the deliveries of 0.36 and of 0.6 to node 1, in both orders.
\<close>

theorem deliveries_commute_witness:
  "mset [(1, 0.36), (1, 0.6::rat)] = mset [(1, 0.6), (1::int, 0.36)]
   \<and> map_of (foldl deliver [(0, 1)] [(1, 0.36), (1, 0.6)]) = map_of (foldl deliver [(0, 1)] [(1, 0.6), (1, 0.36)])
   \<and> foldl deliver [(0, 1)] [(1, 0.6), (1, 0.36)] = [(0, 1), (1, 0.6)]"
  using deliveries_commute [of "[(1, 0.36), (1, 0.6)]" "[(1, 0.6), (1, 0.36)]" "[(0, 1)]"]
  by (simp add: deliver_def setIfHigher_def get_or_zero_def)

text \<open>
  Against claim C6 as stated: three decay ticks after a click on node 0 of the reference
  graph, the first propagation (handle 0) and the fourth decay tick (handle 1) are both due
  at time 400. If the propagation fires first the ledger then holds 0.57 for nodes 1 and 2;
  if the decay tick fires first it holds 0.6.
\<close>

theorem delivery_decay_order_counterexample:
  "map_option activations
     (fire_seq ref_graph [1, 1, 1, 0, 1] (handleActivate ref_graph 0 init_state))
     = Some [(0, 0.95 ^ 4), (1, 0.57), (2, 0.57)]
   \<and> map_option activations
     (fire_seq ref_graph [1, 1, 1, 1, 0] (handleActivate ref_graph 0 init_state))
     = Some [(0, 0.95 ^ 4), (1, 0.6), (2, 0.6)]"
proof
  have "fire_seq ref_graph [1, 1, 1, 0, 1] (handleActivate ref_graph 0 init_state)
          = fire_seq ref_graph ([1, 1, 1] @ [0, 1]) (handleActivate ref_graph 0 init_state)"
    by simp
  also have "\<dots> = Some at_400a"
    by (simp only: fire_seq_append sched_300 sched_400a option.case)
  finally show "map_option activations
     (fire_seq ref_graph [1, 1, 1, 0, 1] (handleActivate ref_graph 0 init_state))
     = Some [(0, 0.95 ^ 4), (1, 0.57), (2, 0.57)]"
    by (simp add: at_400a_def)
  have "fire_seq ref_graph [1, 1, 1, 1, 0] (handleActivate ref_graph 0 init_state)
          = fire_seq ref_graph ([1, 1, 1] @ [1, 0]) (handleActivate ref_graph 0 init_state)"
    by simp
  also have "\<dots> = Some at_400b"
    by (simp only: fire_seq_append sched_300 sched_400b option.case)
  finally show "map_option activations
     (fire_seq ref_graph [1, 1, 1, 1, 0] (handleActivate ref_graph 0 init_state))
     = Some [(0, 0.95 ^ 4), (1, 0.6), (2, 0.6)]"
    by (simp add: at_400b_def)
qed

section \<open>Decay loops per activation\<close>

text \<open>
  Claim C7, as the code has it. Every activation of a node of the graph registers a decay
  interval of its own, whatever intervals are pending: the pending decay intervals are
  those from before and one new one, due 100 later.
\<close>

theorem activate_starts_decay_loop:
  "i \<in> node_id ` set (nodes g) \<Longrightarrow>
     decay_loops (handleActivate g i s) =
       decay_loops s @ [\<lparr>handle = Suc (next_handle s), fire_at = now s + 100,
                         period = Some 100, callback = DecayCb (Suc (next_handle s))\<rparr>]
   \<and> length (decay_loops (handleActivate g i s)) = Suc (length (decay_loops s))"
proof -
  assume "i \<in> node_id ` set (nodes g)"
  then obtain node where f: "find (\<lambda>x. node_id x = i) (nodes g) = Some node"
    by (cases "find (\<lambda>x. node_id x = i) (nodes g)") (auto simp: find_None_iff)
  show ?thesis
    unfolding handleActivate_Some [OF f]
    by (simp add: decay_loops_def setTimeout_def setInterval_def spreadActivation_def
                  emit_pulse_def)
qed

text \<open>
  Claim C7 at a click on node 0 of the reference graph, from the initial state.
\<close>

theorem activate_starts_decay_loop_witness:
  "0 \<in> node_id ` set (nodes ref_graph)
   \<and> decay_loops init_state = []
   \<and> decay_loops (handleActivate ref_graph 0 init_state)
       = [\<lparr>handle = 1, fire_at = 100, period = Some 100, callback = DecayCb 1\<rparr>]"
proof -
  have k: "0 \<in> node_id ` set (nodes ref_graph)"
    by (simp add: ref_graph_def ref_nodes_def)
  show ?thesis
    using activate_starts_decay_loop [OF k, of init_state] k
    by (simp add: init_state_def decay_loops_def)
qed

text \<open>
  Against claim C7 as stated: after two clicks on node 0 of the reference graph, a
  reachable state, two decay intervals are pending.
\<close>

theorem two_decay_loops_counterexample:
  "reachable ref_graph (handleActivate ref_graph 0 (handleActivate ref_graph 0 init_state))
   \<and> decay_loops (handleActivate ref_graph 0 (handleActivate ref_graph 0 init_state))
       = [\<lparr>handle = 1, fire_at = 100, period = Some 100, callback = DecayCb 1\<rparr>,
          \<lparr>handle = 4, fire_at = 100, period = Some 100, callback = DecayCb 4\<rparr>]"
proof
  show "reachable ref_graph (handleActivate ref_graph 0 (handleActivate ref_graph 0 init_state))"
    by (intro r_activate r_init)
  show "decay_loops (handleActivate ref_graph 0 (handleActivate ref_graph 0 init_state))
       = [\<lparr>handle = 1, fire_at = 100, period = Some 100, callback = DecayCb 1\<rparr>,
          \<lparr>handle = 4, fire_at = 100, period = Some 100, callback = DecayCb 4\<rparr>]"
    by code_simp
qed

section \<open>Unknown ids\<close>

text \<open>
  Claim C8, as the code has it. For an id that no node of the graph has,
  \<open>handleActivate\<close> returns the state unchanged: ledger, pulse list and timers. When a
  delivery reaches such an id as the other endpoint of an edge, the failed lookup only
  leaves out the pulse: the pulse list is unchanged, while \<open>setIfHigher\<close> is applied to the
  ledger for that id and \<open>spreadActivation\<close> is called for it.
\<close>

theorem unknown_id_noop:
  "i \<notin> node_id ` set (nodes g) \<Longrightarrow>
     handleActivate g i s = s
   \<and> (\<forall>sourceId strength depth e. neighborId sourceId e = i \<longrightarrow>
         pulseWaves (spread_edge g sourceId strength depth s e) = pulseWaves s
       \<and> spread_edge g sourceId strength depth s e
           = spreadActivation i (strength * 0.6) (depth + 1)
               (s\<lparr>activations := setIfHigher (activations s) i (strength * 0.6)\<rparr>))"
proof -
  assume "i \<notin> node_id ` set (nodes g)"
  then have f: "find (\<lambda>x. node_id x = i) (nodes g) = None" by (rule find_unknown)
  then have "handleActivate g i s = s" by (rule handleActivate_None)
  moreover have "spread_edge g sourceId strength depth s e
           = spreadActivation i (strength * 0.6) (depth + 1)
               (s\<lparr>activations := setIfHigher (activations s) i (strength * 0.6)\<rparr>)"
    if "neighborId sourceId e = i" for sourceId strength depth e
    using that f by (simp add: spread_edge_def Let_def)
  ultimately show ?thesis by simp
qed

text \<open>
  Claim C8 at the id 9 on the reference graph.
\<close>

theorem unknown_id_noop_witness:
  "9 \<notin> node_id ` set (nodes ref_graph) \<and> handleActivate ref_graph 9 init_state = init_state"
proof -
  have u: "9 \<notin> node_id ` set (nodes ref_graph)"
    by (simp add: ref_graph_def ref_nodes_def)
  show ?thesis using unknown_id_noop [OF u, of init_state] u by simp
qed

text \<open>
  Against claim C8 as stated: on a graph whose edge from node 0 ends at the unknown id 7,
  the delivery over that edge puts 7 into the ledger, with level 0.6, and registers a
  propagation callback for it.
\<close>

theorem unknown_neighbor_counterexample:
  "7 \<notin> node_id ` set (nodes dangling_graph)
   \<and> neighborId 0 \<lparr>source = 0, target = 7\<rparr> = 7
   \<and> activations (spread_edge dangling_graph 0 1 1 init_state \<lparr>source = 0, target = 7\<rparr>)
       = [(7, 0.6)]
   \<and> activations init_state = []
   \<and> map callback (timers (spread_edge dangling_graph 0 1 1 init_state
                                         \<lparr>source = 0, target = 7\<rparr>))
       = [SpreadCb 7 0.6 2]"
  by code_simp

section \<open>Graphs with a dangling edge\<close>

text \<open>
  Claim C9, as the code has it. Nothing inspects the graph description. Let an edge at
  \<open>sourceId\<close> have an other endpoint that is not a node. An activation of any id does not
  fail, and an activation of \<open>sourceId\<close>, when it is a node, changes the state. The delivery
  from \<open>sourceId\<close> does not fail either: it raises the level of the missing endpoint to at
  least \<open>strength * 0.6\<close> and, below the two cutoffs, registers a further hop from it.
  Only the pulse is left out: the edge adds no pulse, and the pulses of the whole delivery
  are those of the incident edges whose other endpoint is a node.
\<close>

theorem dangling_edge_accepted:
  "e \<in> set (edges g) \<Longrightarrow> source e = sourceId \<or> target e = sourceId \<Longrightarrow>
   neighborId sourceId e \<notin> node_id ` set (nodes g) \<Longrightarrow>
     handleActivate_checked g i s = Inr (handleActivate g i s)
   \<and> (sourceId \<in> node_id ` set (nodes g) \<longrightarrow> handleActivate g sourceId s \<noteq> s)
   \<and> spread_timeout_checked g sourceId strength depth s
       = Inr (spread_timeout g sourceId strength depth s)
   \<and> strength * 0.6 \<le> get_or_zero (activations (spread_timeout g sourceId strength depth s))
                                   (neighborId sourceId e)
   \<and> (depth < 3 \<and> 0.1 \<le> strength * 0.6 \<longrightarrow>
        SpreadCb (neighborId sourceId e) (strength * 0.6) (depth + 1)
          \<in> callback ` set (timers (spread_timeout g sourceId strength depth s)))
   \<and> edge_pulses g sourceId strength (clockRef s) e = []
   \<and> pulseWaves (spread_edge g sourceId strength depth s e) = pulseWaves s
   \<and> pulseWaves (spread_timeout g sourceId strength depth s)
       = pulseWaves s
         @ concat (map (edge_pulses g sourceId strength (clockRef s))
                       (filter (\<lambda>e'. neighborId sourceId e' \<in> node_id ` set (nodes g))
                               (connectedEdges g sourceId)))"
proof -
  assume e: "e \<in> set (edges g)" and inc: "source e = sourceId \<or> target e = sourceId"
    and u: "neighborId sourceId e \<notin> node_id ` set (nodes g)"
  from e inc have ce: "e \<in> set (connectedEdges g sourceId)" by (simp add: connectedEdges_def)
  have 1: "strength * 0.6 \<le> get_or_zero (activations (spread_timeout g sourceId strength depth s))
                                   (neighborId sourceId e)"
    using ce by (rule spread_timeout_delivers)
  have 2: "SpreadCb (neighborId sourceId e) (strength * 0.6) (depth + 1)
          \<in> callback ` set (timers (spread_timeout g sourceId strength depth s))"
    if "depth < 3 \<and> 0.1 \<le> strength * 0.6"
  proof -
    from that have "\<not> (depth + 1 > 3 \<or> strength * 0.6 < 0.1)" by auto
    then have "map callback (timers (spread_timeout g sourceId strength depth s)) =
          map callback (timers s)
          @ map (\<lambda>e. SpreadCb (neighborId sourceId e) (strength * 0.6) (depth + 1))
                (connectedEdges g sourceId)"
      unfolding spread_timeout_def callbacks_foldl_spread_edge by simp
    then have "set (map callback (timers (spread_timeout g sourceId strength depth s)))
         = set (map callback (timers s)
          @ map (\<lambda>e. SpreadCb (neighborId sourceId e) (strength * 0.6) (depth + 1))
                (connectedEdges g sourceId))" by simp
    then show ?thesis using ce by auto
  qed
  have 3: "handleActivate g sourceId s \<noteq> s" if "sourceId \<in> node_id ` set (nodes g)"
  proof -
    from that obtain node where f: "find (\<lambda>x. node_id x = sourceId) (nodes g) = Some node"
      by (cases "find (\<lambda>x. node_id x = sourceId) (nodes g)") (auto simp: find_None_iff)
    have "length (pulseWaves (handleActivate g sourceId s)) = Suc (length (pulseWaves s))"
      unfolding handleActivate_Some [OF f]
      by (simp add: setTimeout_def setInterval_def emit_pulse_def)
    then show ?thesis by auto
  qed
  have none: "edge_pulses g sourceId strength time e' = []"
    if "neighborId sourceId e' \<notin> node_id ` set (nodes g)" for e' time
    using find_unknown [OF that] by (simp add: edge_pulses_def)
  have 4: "edge_pulses g sourceId strength (clockRef s) e = []" using u by (rule none)
  have 5: "pulseWaves (spread_edge g sourceId strength depth s e) = pulseWaves s"
    by (simp add: pulseWaves_spread_edge 4)
  have "concat (map (edge_pulses g sourceId strength time) es)
          = concat (map (edge_pulses g sourceId strength time)
                        (filter (\<lambda>e'. neighborId sourceId e' \<in> node_id ` set (nodes g)) es))"
    for es time
    by (induction es) (simp_all add: none)
  then have 6: "pulseWaves (spread_timeout g sourceId strength depth s)
       = pulseWaves s
         @ concat (map (edge_pulses g sourceId strength (clockRef s))
                       (filter (\<lambda>e'. neighborId sourceId e' \<in> node_id ` set (nodes g))
                               (connectedEdges g sourceId)))"
    unfolding spread_timeout_def pulseWaves_foldl_spread_edge by simp
  show ?thesis
    using 1 2 3 4 5 6 handleActivate_checked_ok spread_timeout_checked_ok by blast
qed

text \<open>
  Claim C9 at the graph with the single node 0 and the edge from 0 to 7: the delivery from
  node 0 does not fail, gives the id 7 a level, registers a hop from 7 and adds no pulse.
\<close>

theorem dangling_edge_accepted_witness:
  "\<lparr>source = 0, target = 7\<rparr> \<in> set (edges dangling_graph)
   \<and> neighborId 0 \<lparr>source = 0, target = 7\<rparr> = 7
   \<and> 7 \<notin> node_id ` set (nodes dangling_graph)
   \<and> 0 \<in> node_id ` set (nodes dangling_graph)
   \<and> handleActivate dangling_graph 0 init_state \<noteq> init_state
   \<and> spread_timeout_checked dangling_graph 0 1 1 init_state
       = Inr (spread_timeout dangling_graph 0 1 1 init_state)
   \<and> (1::rat) * 0.6 \<le> get_or_zero (activations (spread_timeout dangling_graph 0 1 1 init_state)) 7
   \<and> SpreadCb 7 (1 * 0.6) 2 \<in> callback ` set (timers (spread_timeout dangling_graph 0 1 1 init_state))
   \<and> pulseWaves (spread_timeout dangling_graph 0 1 1 init_state) = []"
proof -
  let ?e = "\<lparr>source = 0, target = 7\<rparr>"
  have e: "?e \<in> set (edges dangling_graph)" by (simp add: dangling_graph_def)
  have inc: "source ?e = 0 \<or> target ?e = 0" by simp
  have n: "neighborId 0 ?e = 7" by (simp add: neighborId_def)
  have u: "neighborId 0 ?e \<notin> node_id ` set (nodes dangling_graph)"
    by (simp add: neighborId_def dangling_graph_def)
  have k: "0 \<in> node_id ` set (nodes dangling_graph)" by (simp add: dangling_graph_def)
  have f: "filter (\<lambda>e'. neighborId 0 e' \<in> node_id ` set (nodes dangling_graph))
             (connectedEdges dangling_graph 0) = []"
    by (simp add: connectedEdges_def neighborId_def dangling_graph_def)
  have p: "pulseWaves init_state = []" by (simp add: init_state_def)
  show ?thesis
    using dangling_edge_accepted [OF e inc u, of 0 init_state 1 1] e n u k f p
    by (simp add: numeral_2_eq_2)
qed

text \<open>
  Against claim C9 as stated: the graph with the single node 0 and the edge from 0 to 7 is
  accepted. A click on node 0 does not fail and changes the state; after three decay ticks
  and the first propagation the id 7 has the level 0.6, a propagation callback from 7 is
  pending, and the only pulse is the one of the click.
\<close>

theorem malformed_graph_counterexample:
  "\<lparr>source = 0, target = 7\<rparr> \<in> set (edges dangling_graph)
   \<and> 7 \<notin> node_id ` set (nodes dangling_graph)
   \<and> handleActivate_checked dangling_graph 0 init_state
       = Inr (handleActivate dangling_graph 0 init_state)
   \<and> handleActivate dangling_graph 0 init_state \<noteq> init_state
   \<and> fire_seq dangling_graph [1, 1, 1, 0] (handleActivate dangling_graph 0 init_state)
       = Some \<lparr>activations = [(0, 0.95 ^ 3), (7, 0.6)],
               pulseWaves = [\<lparr>origin = (0, 0, 0), startTime = 0\<rparr>], clockRef = 0, now = 400,
               timers = [\<lparr>handle = 2, fire_at = 3000, period = None, callback = ClearCb\<rparr>,
                         \<lparr>handle = 1, fire_at = 400, period = Some 100, callback = DecayCb 1\<rparr>,
                         \<lparr>handle = 3, fire_at = 1200, period = None,
                           callback = SpreadCb 7 0.6 2\<rparr>],
               next_handle = 4\<rparr>"
  by code_simp

section \<open>Strength of a wave in flight\<close>

text \<open>
  Claim C10. In a reachable state a pending propagation callback of depth \<open>depth\<close>,
  between 1 and 3, carries the strength \<open>0.6 ^ (depth - 1)\<close>. When it fires, the ledger
  becomes the old ledger with \<open>setIfHigher\<close> applied at \<open>0.6 ^ depth\<close> for the other
  endpoint of each incident edge; below depth 3 it registers, for each incident edge, a
  callback of the next depth that carries \<open>0.6 ^ depth\<close>, and at depth 3 none; and the
  timers and pulses it leaves are the same whatever the ledger held.
\<close>

theorem wave_strength_from_parameter:
  "reachable g s \<Longrightarrow> t \<in> set (timers s) \<Longrightarrow> callback t = SpreadCb sourceId strength depth \<Longrightarrow>
     1 \<le> depth \<and> depth \<le> 3 \<and> strength = 0.6 ^ (depth - 1)
   \<and> activations (fire g t s) =
       foldl (\<lambda>m e. setIfHigher m (neighborId sourceId e) (0.6 ^ depth)) (activations s)
             (connectedEdges g sourceId)
   \<and> map callback (timers (fire g t s)) =
       map callback (requeue t (timers s))
       @ (if depth < 3
          then map (\<lambda>e. SpreadCb (neighborId sourceId e) (0.6 ^ depth) (depth + 1))
                   (connectedEdges g sourceId)
          else [])
   \<and> (\<forall>a. timers (fire g t (s\<lparr>activations := a\<rparr>)) = timers (fire g t s)
          \<and> pulseWaves (fire g t (s\<lparr>activations := a\<rparr>)) = pulseWaves (fire g t s))"
proof -
  assume r: "reachable g s" and t: "t \<in> set (timers s)"
    and cb: "callback t = SpreadCb sourceId strength depth"
  have "timer_ok t" using reachable_state_ok [OF r] t by (simp add: state_ok_def)
  with cb have d: "1 \<le> depth" "depth \<le> 3" and str: "strength = 0.6 ^ (depth - 1)"
    by (simp_all add: timer_ok_def)
  have tr: "strength * 0.6 = 0.6 ^ depth"
    using hop_power [OF d(1)] str by simp
  have fire_eq: "fire g t s' =
     foldl (spread_edge g sourceId strength depth)
       (s'\<lparr>now := fire_at t, timers := requeue t (timers s')\<rparr>) (connectedEdges g sourceId)" for s'
    by (simp add: fire_def run_callback_def cb spread_timeout_def)
  have act: "activations (fire g t s) =
       foldl (\<lambda>m e. setIfHigher m (neighborId sourceId e) (0.6 ^ depth)) (activations s)
             (connectedEdges g sourceId)"
    unfolding fire_eq activations_foldl_spread_edge tr by simp
  have floor: "\<not> (0.6::rat) ^ depth < 0.1"
  proof -
    from d have "depth = 1 \<or> depth = 2 \<or> depth = 3" by auto
    then show ?thesis by (auto simp: eval_nat_numeral)
  qed
  have hops: "map callback (timers (fire g t s)) =
       map callback (requeue t (timers s))
       @ (if depth < 3
          then map (\<lambda>e. SpreadCb (neighborId sourceId e) (0.6 ^ depth) (depth + 1))
                   (connectedEdges g sourceId)
          else [])"
    unfolding fire_eq callbacks_foldl_spread_edge tr using floor by auto
  have upd: "fire g t (s\<lparr>activations := a\<rparr>) =
      (fire g t s)\<lparr>activations :=
            foldl (\<lambda>m e. setIfHigher m (neighborId sourceId e) (strength * 0.6)) a
                  (connectedEdges g sourceId)\<rparr>" for a
  proof -
    have "(s\<lparr>activations := a\<rparr>)\<lparr>now := fire_at t, timers := requeue t (timers (s\<lparr>activations := a\<rparr>))\<rparr>
            = (s\<lparr>now := fire_at t, timers := requeue t (timers s)\<rparr>)\<lparr>activations := a\<rparr>"
      by simp
    then show ?thesis
      unfolding fire_eq by (simp only: foldl_spread_edge_upd)
  qed
  show ?thesis
    using d str act hops by (simp add: upd)
qed

text \<open>
  Claim C10 at the propagation from node 1, of depth 2, in the reference scenario at time
  1100. Decay has lowered the level of node 1 to \<open>0.6 * 0.95 ^ 8\<close>, yet node 3 gets
  \<open>0.6 * 0.6 = 0.36\<close>, and the three hops of depth 3 carry 0.36.
\<close>

theorem wave_strength_from_parameter_witness:
  "reachable ref_graph at_1100a
   \<and> \<lparr>handle = 3, fire_at = 1200, period = None, callback = SpreadCb 1 0.6 2\<rparr>
       \<in> set (timers at_1100a)
   \<and> get_or_zero (activations at_1100a) 1 = 0.6 * 0.95 ^ 8
   \<and> map_of (activations (fire ref_graph
         \<lparr>handle = 3, fire_at = 1200, period = None, callback = SpreadCb 1 0.6 2\<rparr> at_1100a)) 3
       = Some 0.36
   \<and> map callback (timers (fire ref_graph
         \<lparr>handle = 3, fire_at = 1200, period = None, callback = SpreadCb 1 0.6 2\<rparr> at_1100a))
       = [ClearCb, SpreadCb 2 0.6 2, DecayCb 1,
          SpreadCb 0 0.36 3, SpreadCb 3 0.36 3, SpreadCb 2 0.36 3]"
proof -
  let ?t = "\<lparr>handle = 3, fire_at = 1200, period = None, callback = SpreadCb 1 0.6 2\<rparr>"
  have r: "reachable ref_graph at_1100a"
    using reachable_scenario_0 at_1100_reached(1) by (rule reachable_runs)
  have t: "?t \<in> set (timers at_1100a)" by (simp add: at_1100a_def)
  have cb: "callback ?t = SpreadCb 1 0.6 2" by simp
  have lv: "get_or_zero (activations at_1100a) 1 = 0.6 * 0.95 ^ 8"
    by (simp add: at_1100a_def get_or_zero_def)
  have ce: "connectedEdges ref_graph 1
              = [\<lparr>source = 0, target = 1\<rparr>, \<lparr>source = 1, target = 3\<rparr>, \<lparr>source = 1, target = 2\<rparr>]"
    by (simp add: connectedEdges_def ref_graph_def ref_edges_def)
  note th = wave_strength_from_parameter [OF r t cb]
  have a: "map_of (activations (fire ref_graph ?t at_1100a)) 3 = Some 0.36"
    using th
    by (simp add: ce neighborId_def at_1100a_def setIfHigher_def get_or_zero_def
                  eval_nat_numeral)
  have c: "map callback (timers (fire ref_graph ?t at_1100a))
       = [ClearCb, SpreadCb 2 0.6 2, DecayCb 1,
          SpreadCb 0 0.36 3, SpreadCb 3 0.36 3, SpreadCb 2 0.36 3]"
    using th by (simp add: ce neighborId_def at_1100a_def requeue_def eval_nat_numeral)
  show ?thesis using r t lv a c by simp
qed

end
